theory Spec2Isabelle
  imports Main "HOL-Library.Word"
begin

section \<open>Source positions and tokens\<close>

text \<open>
  A Go \<open>rune\<close> is a Unicode code point; the reader hands the tokenizer decoded code
  points, so the input of the model is a list of them. \<open>eof\<close> is \<open>rune(0)\<close>.
\<close>

type_synonym rune = nat

type_synonym uint32 = "32 word"

type_synonym int64 = "64 word"

record FilePos =
  LineNumber :: uint32
  CharNumber :: uint32
  FilePath :: string

datatype TokenType =
    TT_EOF | TT_FUNC | TT_SEMICOLON | TT_COLON | TT_LITINT | TT_LITFLOAT | TT_IDENT
  | TT_LCBRACKET | TT_RCBRACKET | TT_LPAREN | TT_RPAREN | TT_NUMSIGN | TT_QUOT | TT_IF
  | TT_LBRACKET | TT_RBRACKET

record Token =
  SVal :: string
  TkType :: TokenType
  Pos :: FilePos

section \<open>Types\<close>

text \<open>
  The interface \<open>Type\<close> is implemented by \<open>*VoidType\<close>, \<open>*PrimType\<close>, \<open>*UnionType\<close> and
  \<open>*FuncType\<close> (\<open>ContractType\<close> has no \<open>String\<close> method and is not a \<open>Type\<close>).
  \<open>InvalidType\<close> is the nil interface value (\<open>var InvalidType Type = nil\<close>).
  \<open>FuncT\<close> is a \<open>*FuncType\<close> seen as a \<open>Type\<close>.
\<close>

datatype Type =
    InvalidType
  | VoidType
  | PrimType string
  | UnionType "Type list"
  | FuncT FuncType
and FuncType =
    FuncType (ArgTypes: "Type list") (RetTypes: "Type list")

section \<open>Errors, panics and results\<close>

text \<open>
  The error values of the package: \<open>TokenizerError\<close> wraps another error (nil in one place
  of the tokenizer, hence the option), \<open>ParserError\<close>, \<open>TypeError\<close> (its token is the pointer
  stored in a node, which may be nil) and the plain errors made by \<open>fmt.Errorf\<close>.
\<close>

datatype error =
    TokenizerError FilePos "error option"
  | ParserError Token string
  | TypeError (Wanted: Type) (Got: Type) (TEToken: "Token option") (Extra: string)
  | Errorf string

text \<open>
  A call returns a value (\<open>Ok\<close>), returns a non-nil error (\<open>Err\<close>), or panics (\<open>Panic\<close>,
  with the panic's message; run-time panics carry the run-time's message).
\<close>

datatype 'a result = Ok 'a | Err error | Panic string

text \<open>\<open>%d\<close> and \<open>%v\<close> of a non-negative integer: its decimal digits.\<close>

function decimal :: "nat \<Rightarrow> string" where
  "decimal n =
     (if n < 10 then [char_of (48 + n)] else decimal (n div 10) @ [char_of (48 + n mod 10)])"
  by pat_completeness auto
termination
  by (relation "measure (\<lambda>n. n)") auto

declare decimal.simps [simp del]

text \<open>
  The messages of the two run-time panics the package can raise (the run-time adds the index
  and the length to the second one).
\<close>

definition nil_dereference :: string where
  "nil_dereference = ''runtime error: invalid memory address or nil pointer dereference''"

definition index_out_of_range :: string where
  "index_out_of_range = ''runtime error: index out of range''"

section \<open>The order on types\<close>

text \<open>\<open>strings.Compare\<close>: the three-way lexicographic comparison of two byte strings.\<close>

fun strings_Compare :: "string \<Rightarrow> string \<Rightarrow> int" where
  "strings_Compare [] [] = 0"
| "strings_Compare [] (y # ys) = -1"
| "strings_Compare (x # xs) [] = 1"
| "strings_Compare (x # xs) (y # ys) =
     (if (of_char x :: nat) < of_char y then -1
      else if (of_char y :: nat) < of_char x then 1
      else strings_Compare xs ys)"

text \<open>
  \<open>TypeCmp\<close>, with the loop over the members of two unions as \<open>TypeCmp_loop\<close>. The first
  length test compares \<open>len(ut1.Types)\<close> with itself, as the source does. A pair of types
  that no case of the two switches returns for reaches the final panic.
\<close>

fun TypeCmp :: "Type \<Rightarrow> Type \<Rightarrow> int result"
and TypeCmp_loop :: "Type list \<Rightarrow> Type list \<Rightarrow> int result" where
  "TypeCmp VoidType VoidType = Ok 0"
| "TypeCmp VoidType t2 = Ok (- 1)"
| "TypeCmp (PrimType a) (PrimType b) = Ok (strings_Compare a b)"
| "TypeCmp (PrimType a) VoidType = Ok 1"
| "TypeCmp (PrimType a) (UnionType ts2) = Ok (- 1)"
| "TypeCmp (UnionType ts1) (PrimType b) = Ok 1"
| "TypeCmp (UnionType ts1) VoidType = Ok 1"
| "TypeCmp (UnionType ts1) (UnionType ts2) =
     (if length ts1 < length ts1 then Ok (- 1)
      else if length ts1 > length ts2 then Ok 1
      else TypeCmp_loop ts1 ts2)"
| "TypeCmp t1 t2 = Panic ''BUG: can't compare these types?''"
| "TypeCmp_loop [] ts2 = Ok 0"
| "TypeCmp_loop (a # as) [] = Panic index_out_of_range"
| "TypeCmp_loop (a # as) (b # bs) =
     (case TypeCmp a b of
        Ok c \<Rightarrow> if c \<noteq> 0 then Ok c else TypeCmp_loop as bs
      | Err e \<Rightarrow> Err e
      | Panic m \<Rightarrow> Panic m)"

definition TypeEqual :: "Type \<Rightarrow> Type \<Rightarrow> bool result" where
  "TypeEqual t1 t2 =
     (case TypeCmp t1 t2 of Ok c \<Rightarrow> Ok (c = 0) | Err e \<Rightarrow> Err e | Panic m \<Rightarrow> Panic m)"

fun TypesEqual_loop :: "Type list \<Rightarrow> Type list \<Rightarrow> bool result" where
  "TypesEqual_loop [] ts2 = Ok True"
| "TypesEqual_loop (a # as) [] = Panic index_out_of_range"
| "TypesEqual_loop (a # as) (b # bs) =
     (case TypeEqual a b of
        Ok eq \<Rightarrow> if \<not> eq then Ok False else TypesEqual_loop as bs
      | Err e \<Rightarrow> Err e
      | Panic m \<Rightarrow> Panic m)"

definition TypesEqual :: "Type list \<Rightarrow> Type list \<Rightarrow> bool result" where
  "TypesEqual ts1 ts2 =
     (if length ts1 \<noteq> length ts2 then Ok False else TypesEqual_loop ts1 ts2)"

section \<open>Compatibility\<close>

text \<open>
  The search loops of \<open>TypeCompatibleWith\<close>: \<open>TypeCompatibleWith_found a ts\<close> scans \<open>ts\<close> from
  the left for a member equal to \<open>a\<close> and stops at the first one (both the prim-in-union
  loop and the inner loop of the union case do this); \<open>TypeCompatibleWith_all\<close> is the outer
  loop of the union case.
\<close>

fun TypeCompatibleWith_found :: "Type \<Rightarrow> Type list \<Rightarrow> bool result" where
  "TypeCompatibleWith_found a [] = Ok False"
| "TypeCompatibleWith_found a (typ # rest) =
     (case TypeEqual a typ of
        Ok eq \<Rightarrow> if eq then Ok True else TypeCompatibleWith_found a rest
      | Err e \<Rightarrow> Err e
      | Panic m \<Rightarrow> Panic m)"

fun TypeCompatibleWith_all :: "Type list \<Rightarrow> Type list \<Rightarrow> bool result" where
  "TypeCompatibleWith_all [] ts_b = Ok True"
| "TypeCompatibleWith_all (typ_a # rest) ts_b =
     (case TypeCompatibleWith_found typ_a ts_b of
        Ok found \<Rightarrow> if \<not> found then Ok False else TypeCompatibleWith_all rest ts_b
      | Err e \<Rightarrow> Err e
      | Panic m \<Rightarrow> Panic m)"

fun TypeCompatibleWith :: "Type \<Rightarrow> Type \<Rightarrow> bool result" where
  "TypeCompatibleWith VoidType VoidType = Ok True"
| "TypeCompatibleWith VoidType b = Ok False"
| "TypeCompatibleWith (PrimType x) (PrimType y) = TypeEqual (PrimType x) (PrimType y)"
| "TypeCompatibleWith (PrimType x) (UnionType ts) = TypeCompatibleWith_found (PrimType x) ts"
| "TypeCompatibleWith (PrimType x) b = Ok False"
| "TypeCompatibleWith (UnionType ts_a) (UnionType ts_b) = TypeCompatibleWith_all ts_a ts_b"
| "TypeCompatibleWith (UnionType ts_a) b = Ok False"
| "TypeCompatibleWith a b = Panic ''BUG: Can't tell if compatible or not?''"

section \<open>Character classes\<close>

definition isdigit :: "rune \<Rightarrow> bool" where
  "isdigit rn \<longleftrightarrow> rn \<ge> of_char CHR ''0'' \<and> rn \<le> of_char CHR ''9''"

definition isletter :: "rune \<Rightarrow> bool" where
  "isletter rn \<longleftrightarrow>
     (if rn \<ge> of_char CHR ''a'' \<and> rn \<le> of_char CHR ''z'' then True
      else if rn \<ge> of_char CHR ''A'' \<and> rn \<le> of_char CHR ''Z'' then True
      else False)"

definition isident :: "rune \<Rightarrow> bool" where
  "isident rn \<longleftrightarrow> isletter rn \<or> rn = of_char CHR ''.'' \<or> rn = of_char CHR '':''"

definition iswhitespace :: "rune \<Rightarrow> bool" where
  "iswhitespace rn \<longleftrightarrow> rn = 9 \<or> rn = of_char CHR '' '' \<or> rn = 13 \<or> rn = 10"

section \<open>The tokenizer\<close>

text \<open>
  The state of a \<open>tokenizer\<close>: the runes its reader has not delivered yet, the file path,
  the line and column counters (\<open>uint32\<close>, wrapping) and the one-rune pushback \<open>rn\<close>.
\<close>

record tokenizer =
  t_r :: "rune list"
  t_fpath :: string
  t_lineno :: uint32
  t_charno :: uint32
  t_rn :: rune

definition eof :: rune where
  "eof = 0"

text \<open>
  \<open>NewTokenizerString\<close>. The runes of an ASCII string are its bytes (the reader decodes
  UTF-8, so a string with bytes above 127 is given to the model as its code points instead).
\<close>

definition NewTokenizerRunes :: "rune list \<Rightarrow> string \<Rightarrow> tokenizer" where
  "NewTokenizerRunes rs path =
     \<lparr>t_r = rs, t_fpath = path, t_lineno = 1, t_charno = 1, t_rn = eof\<rparr>"

definition NewTokenizerString :: "string \<Rightarrow> tokenizer" where
  "NewTokenizerString code = NewTokenizerRunes (map of_char code) ''<memory>''"

definition filepos :: "tokenizer \<Rightarrow> FilePos" where
  "filepos t = \<lparr>LineNumber = t_lineno t, CharNumber = t_charno t, FilePath = t_fpath t\<rparr>"

definition unread :: "tokenizer \<Rightarrow> rune \<Rightarrow> unit result \<times> tokenizer" where
  "unread t rn =
     (if t_rn t \<noteq> eof then (Panic ''BUG t.rn is not empty!'', t)
      else (Ok (), t\<lparr>t_rn := rn\<rparr>))"

text \<open>
  \<open>read\<close>. The reader of the model holds its runes in memory: at their end \<open>ReadRune\<close>
  reports \<open>io.EOF\<close>, and it reports no other error, so \<open>read\<close> always returns \<open>Ok\<close>. The
  callers keep their \<open>err != nil\<close> branches.
\<close>

definition read :: "tokenizer \<Rightarrow> rune result \<times> tokenizer" where
  "read t =
     (if t_rn t \<noteq> eof then (Ok (t_rn t), t\<lparr>t_rn := eof\<rparr>)
      else
        (case t_r t of
           [] \<Rightarrow> (Ok eof, t)
         | rn # rest \<Rightarrow>
             (if rn = 10 then (Ok rn, t\<lparr>t_r := rest, t_lineno := t_lineno t + 1, t_charno := 1\<rparr>)
              else if rn \<noteq> 13 then (Ok rn, t\<lparr>t_r := rest, t_charno := t_charno t + 1\<rparr>)
              else (Ok rn, t\<lparr>t_r := rest\<rparr>))))"

text \<open>
  The measure of the termination proofs: every rune still to be read counts two, a rune
  in the pushback counts one.
\<close>

definition tzm :: "tokenizer \<Rightarrow> nat" where
  "tzm t = 2 * length (t_r t) + (if t_rn t \<noteq> eof then 1 else 0)"

lemma read_tzm_less: "read t = (Ok rn, t1) \<Longrightarrow> rn \<noteq> eof \<Longrightarrow> tzm t1 < tzm t"
  by (auto simp: read_def tzm_def split: if_splits list.splits)

lemma read_tzm_le: "read t = (x, t1) \<Longrightarrow> tzm t1 \<le> tzm t"
  by (auto simp: read_def tzm_def split: if_splits list.splits)

lemma read_t_rn: "read t = (x, t1) \<Longrightarrow> t_rn t1 = eof"
  by (auto simp: read_def split: if_splits list.splits)

lemma read_Ok: "\<exists>rn. fst (read t) = Ok rn"
  by (auto simp: read_def split: if_splits list.splits)

text \<open>
  \<open>buf.WriteRune\<close>: every rune the tokenizer writes is an ASCII rune (a digit, a letter or
  one of \<open>- . : %\<close>), whose encoding is the one byte \<open>char_of rn\<close>.
\<close>

definition WriteRune :: "string \<Rightarrow> rune \<Rightarrow> string" where
  "WriteRune buf rn = buf @ [char_of rn]"

text \<open>The loop of \<open>litintfloat\<close>: it returns the buffer and \<open>seenDot\<close> where the loop breaks.\<close>

function litintfloat_loop ::
  "tokenizer \<Rightarrow> string \<Rightarrow> bool \<Rightarrow> (string \<times> bool) result \<times> tokenizer" where
  "litintfloat_loop t buf seenDot =
     (case read t of
        (Err e, t1) \<Rightarrow> (Err e, t1)
      | (Panic m, t1) \<Rightarrow> (Panic m, t1)
      | (Ok rn, t1) \<Rightarrow>
          (if rn = eof then (Ok (buf, seenDot), t1)
           else if isdigit rn then litintfloat_loop t1 (WriteRune buf rn) seenDot
           else if rn = of_char CHR ''.'' then
             (if seenDot then (Err (TokenizerError (filepos t1) None), t1)
              else litintfloat_loop t1 (WriteRune buf rn) True)
           else
             (case unread t1 rn of
                (Ok u, t2) \<Rightarrow> (Ok (buf, seenDot), t2)
              | (Err e, t2) \<Rightarrow> (Err e, t2)
              | (Panic m, t2) \<Rightarrow> (Panic m, t2))))"
  by pat_completeness auto
termination
  by (relation "measure (\<lambda>(t, buf, seenDot). tzm t)") (auto dest: read_tzm_less [OF sym])

declare litintfloat_loop.simps [simp del]

definition litintfloat :: "tokenizer \<Rightarrow> rune \<Rightarrow> Token result \<times> tokenizer" where
  "litintfloat t rn =
     (case litintfloat_loop t (WriteRune [] rn) False of
        (Err e, t1) \<Rightarrow> (Err e, t1)
      | (Panic m, t1) \<Rightarrow> (Panic m, t1)
      | (Ok (str, seenDot), t1) \<Rightarrow>
          (if str = ''-'' then
             (Err (TokenizerError (filepos t1)
                (Some (Errorf (''Literal '' @ [CHR 0x22] @ ''-'' @ [CHR 0x22]
                   @ '' is missing at least one digit.'')))), t1)
           else if seenDot then
             (Ok \<lparr>SVal = str, TkType = TT_LITFLOAT, Pos = filepos t1\<rparr>, t1)
           else
             (Ok \<lparr>SVal = str, TkType = TT_LITINT, Pos = filepos t1\<rparr>, t1)))"

function ident_loop :: "tokenizer \<Rightarrow> string \<Rightarrow> string result \<times> tokenizer" where
  "ident_loop t buf =
     (case read t of
        (Err e, t1) \<Rightarrow> (Err e, t1)
      | (Panic m, t1) \<Rightarrow> (Panic m, t1)
      | (Ok rn, t1) \<Rightarrow>
          (if rn = eof then (Ok buf, t1)
           else if isident rn then ident_loop t1 (WriteRune buf rn)
           else
             (case unread t1 rn of
                (Ok u, t2) \<Rightarrow> (Ok buf, t2)
              | (Err e, t2) \<Rightarrow> (Err e, t2)
              | (Panic m, t2) \<Rightarrow> (Panic m, t2))))"
  by pat_completeness auto
termination
  by (relation "measure (\<lambda>(t, buf). tzm t)") (auto dest: read_tzm_less [OF sym])

declare ident_loop.simps [simp del]

definition ident :: "tokenizer \<Rightarrow> rune \<Rightarrow> Token result \<times> tokenizer" where
  "ident t rn =
     (case ident_loop t (WriteRune [] rn) of
        (Err e, t1) \<Rightarrow> (Err e, t1)
      | (Panic m, t1) \<Rightarrow> (Panic m, t1)
      | (Ok str, t1) \<Rightarrow>
          (if str = ''func'' then (Ok \<lparr>SVal = str, TkType = TT_FUNC, Pos = filepos t1\<rparr>, t1)
           else (Ok \<lparr>SVal = str, TkType = TT_IDENT, Pos = filepos t1\<rparr>, t1)))"

text \<open>The loop at the head of \<open>Next\<close>, which skips whitespace.\<close>

function Next_skip :: "tokenizer \<Rightarrow> rune result \<times> tokenizer" where
  "Next_skip t =
     (case read t of
        (Err e, t1) \<Rightarrow> (Err (TokenizerError (filepos t1) (Some e)), t1)
      | (Panic m, t1) \<Rightarrow> (Panic m, t1)
      | (Ok rn, t1) \<Rightarrow>
          (if \<not> iswhitespace rn \<or> rn = eof then (Ok rn, t1) else Next_skip t1))"
  by pat_completeness auto
termination
  by (relation "measure tzm") (auto dest: read_tzm_less [OF sym] simp: eof_def iswhitespace_def)

declare Next_skip.simps [simp del]

definition single :: "tokenizer \<Rightarrow> string \<Rightarrow> TokenType \<Rightarrow> Token result \<times> tokenizer" where
  "single t s tt = (Ok \<lparr>SVal = s, TkType = tt, Pos = filepos t\<rparr>, t)"

definition Next :: "tokenizer \<Rightarrow> Token result \<times> tokenizer" where
  "Next t =
     (case Next_skip t of
        (Err e, t1) \<Rightarrow> (Err e, t1)
      | (Panic m, t1) \<Rightarrow> (Panic m, t1)
      | (Ok rn, t1) \<Rightarrow>
          (if rn = of_char CHR ''#'' then single t1 ''#'' TT_NUMSIGN
           else if rn = of_char CHR '';'' then single t1 '';'' TT_SEMICOLON
           else if rn = of_char CHR ''{'' then single t1 ''{'' TT_LCBRACKET
           else if rn = of_char CHR ''}'' then single t1 ''}'' TT_RCBRACKET
           else if rn = of_char CHR ''['' then single t1 ''['' TT_LBRACKET
           else if rn = of_char CHR '']'' then single t1 '']'' TT_RBRACKET
           else if rn = of_char CHR ''('' then single t1 ''('' TT_LPAREN
           else if rn = of_char CHR '')'' then single t1 '')'' TT_RPAREN
           else if rn = of_char (CHR 0x27) then single t1 [CHR 0x27] TT_QUOT
           else if isletter rn \<or> rn = of_char CHR ''%'' then ident t1 rn
           else if isdigit rn \<or> rn = of_char CHR ''-'' then litintfloat t1 rn
           else if rn = eof then single t1 ''<eof>'' TT_EOF
           else
             (Err (TokenizerError (filepos t1)
                (Some (Errorf (''Unexpected rune: '' @ decimal rn)))), t1)))"

text \<open>No call of the tokenizer makes its measure grow, and a token other than \<open>EOF\<close> costs.\<close>

lemma unread_tzm: "unread t rn = (r, t2) \<Longrightarrow> tzm t2 \<le> tzm t + 1"
  by (auto simp: unread_def tzm_def split: if_splits)

lemma litintfloat_loop_tzm: "litintfloat_loop t buf seenDot = (r, t') \<Longrightarrow> tzm t' \<le> tzm t"
proof (induction t buf seenDot arbitrary: r t' rule: litintfloat_loop.induct)
  case (1 t buf seenDot)
  obtain x t1 where rd: "read t = (x, t1)" by (cases "read t")
  from read_Ok [of t] rd obtain rn where x: "x = Ok rn" by auto
  note le = read_tzm_le [OF rd]
  show ?case
  proof (cases "rn = eof")
    case True
    with "1.prems" rd x le show ?thesis by (simp add: litintfloat_loop.simps)
  next
    case False
    note lt = read_tzm_less [OF rd [unfolded x] False]
    show ?thesis
    proof (cases "isdigit rn")
      case True
      with "1.prems" rd x False have "litintfloat_loop t1 (WriteRune buf rn) seenDot = (r, t')"
        by (simp add: litintfloat_loop.simps)
      from "1.IH"(1) [OF rd [unfolded x, symmetric] refl False True this] lt show ?thesis by simp
    next
      case nd: False
      show ?thesis
      proof (cases "rn = of_char CHR ''.''")
        case True
        show ?thesis
        proof (cases seenDot)
          case True
          with "1.prems" rd x False nd \<open>rn = of_char CHR ''.''\<close> le show ?thesis
            by (simp add: litintfloat_loop.simps)
        next
          case sd: False
          with "1.prems" rd x False nd True
          have "litintfloat_loop t1 (WriteRune buf rn) True = (r, t')"
            by (simp add: litintfloat_loop.simps)
          from "1.IH"(2) [OF rd [unfolded x, symmetric] refl False nd True sd this] lt
          show ?thesis by simp
        qed
      next
        case False
        obtain u t2 where un: "unread t1 rn = (u, t2)" by (cases "unread t1 rn")
        from "1.prems" rd x \<open>rn \<noteq> eof\<close> nd False un have "t' = t2"
          by (auto simp: litintfloat_loop.simps split: result.splits)
        with unread_tzm [OF un] lt show ?thesis by simp
      qed
    qed
  qed
qed


lemma ident_loop_tzm: "ident_loop t buf = (r, t') \<Longrightarrow> tzm t' \<le> tzm t"
proof (induction t buf arbitrary: r t' rule: ident_loop.induct)
  case (1 t buf)
  obtain x t1 where rd: "read t = (x, t1)" by (cases "read t")
  from read_Ok [of t] rd obtain rn where x: "x = Ok rn" by auto
  note le = read_tzm_le [OF rd]
  show ?case
  proof (cases "rn = eof")
    case True
    with "1.prems" rd x le show ?thesis by (simp add: ident_loop.simps)
  next
    case False
    note lt = read_tzm_less [OF rd [unfolded x] False]
    show ?thesis
    proof (cases "isident rn")
      case True
      with "1.prems" rd x False have "ident_loop t1 (WriteRune buf rn) = (r, t')"
        by (simp add: ident_loop.simps)
      from "1.IH" [OF rd [unfolded x, symmetric] refl False True this] lt show ?thesis by simp
    next
      case ni: False
      obtain u t2 where un: "unread t1 rn = (u, t2)" by (cases "unread t1 rn")
      from "1.prems" rd x False ni un have "t' = t2"
        by (auto simp: ident_loop.simps split: result.splits)
      with unread_tzm [OF un] lt show ?thesis by simp
    qed
  qed
qed

lemma Next_skip_tzm:
  "Next_skip t = (r, t') \<Longrightarrow> tzm t' \<le> tzm t \<and> (r \<noteq> Ok eof \<longrightarrow> tzm t' < tzm t)"
proof (induction t arbitrary: r t' rule: Next_skip.induct)
  case (1 t)
  obtain x t1 where rd: "read t = (x, t1)" by (cases "read t")
  from read_Ok [of t] rd obtain rn where x: "x = Ok rn" by auto
  note le = read_tzm_le [OF rd]
  show ?case
  proof (cases "rn = eof")
    case True
    with "1.prems" rd x le show ?thesis by (simp add: Next_skip.simps)
  next
    case False
    note lt = read_tzm_less [OF rd [unfolded x] False]
    show ?thesis
    proof (cases "iswhitespace rn")
      case True
      with "1.prems" rd x False have "Next_skip t1 = (r, t')"
        by (simp add: Next_skip.simps)
      from "1.IH" [OF rd [unfolded x, symmetric] refl _ this] True False lt show ?thesis by simp
    next
      case nw: False
      with "1.prems" rd x False lt show ?thesis by (simp add: Next_skip.simps)
    qed
  qed
qed

lemma Next_skip_Ok: "\<exists>rn. fst (Next_skip t) = Ok rn"
proof (induction t rule: Next_skip.induct)
  case (1 t)
  obtain x t1 where rd: "read t = (x, t1)" by (cases "read t")
  from read_Ok [of t] rd obtain rn where x: "x = Ok rn" by auto
  show ?case
  proof (cases "\<not> iswhitespace rn \<or> rn = eof")
    case True
    with rd x show ?thesis by (subst Next_skip.simps) auto
  next
    case False
    with "1.IH" [OF rd [unfolded x, symmetric] refl] rd x show ?thesis
      by (subst Next_skip.simps) auto
  qed
qed


lemma litintfloat_tzm: "litintfloat t rn = (r, t') \<Longrightarrow> tzm t' \<le> tzm t"
  by (auto simp: litintfloat_def split: prod.splits result.splits if_splits
           dest: litintfloat_loop_tzm)

lemma ident_tzm: "ident t rn = (r, t') \<Longrightarrow> tzm t' \<le> tzm t"
  by (auto simp: ident_def split: prod.splits result.splits if_splits dest: ident_loop_tzm)

lemma Next_tzm:
  assumes "Next t = (r, t')"
  shows "tzm t' \<le> tzm t"
    and "(\<And>tk. r = Ok tk \<Longrightarrow> TkType tk \<noteq> TT_EOF) \<Longrightarrow> tzm t' < tzm t"
proof -
  obtain x t1 where sk: "Next_skip t = (x, t1)" by (cases "Next_skip t")
  from Next_skip_Ok [of t] sk obtain rn where x: "x = Ok rn" by auto
  note sk_le = Next_skip_tzm [OF sk, THEN conjunct1]
  note sk_lt = Next_skip_tzm [OF sk, THEN conjunct2]
  have sub_le: "tzm t' \<le> tzm t1"
    using assms sk x
    by (auto simp: Next_def single_def split: if_splits dest: ident_tzm litintfloat_tzm)
  with sk_le show "tzm t' \<le> tzm t" by simp
  assume ne: "\<And>tk. r = Ok tk \<Longrightarrow> TkType tk \<noteq> TT_EOF"
  have "rn \<noteq> eof"
  proof
    assume "rn = eof"
    with assms sk x have "r = Ok \<lparr>SVal = ''<eof>'', TkType = TT_EOF, Pos = filepos t1\<rparr>"
      by (auto simp: Next_def single_def eof_def isletter_def isdigit_def)
    with ne show False by fastforce
  qed
  with sk_lt x sub_le show "tzm t' < tzm t" by simp
qed

section \<open>Printing types and building unions\<close>

text \<open>
  The \<open>String\<close> methods. Calling \<open>String\<close> on a nil member of a union or of a function type
  dereferences nil. \<open>strings.Join\<close> with a single space is \<open>Join\<close>.
\<close>

fun Join :: "string list \<Rightarrow> string" where
  "Join [] = []"
| "Join [x] = x"
| "Join (x # y # ys) = x @ '' '' @ Join (y # ys)"

fun String :: "Type \<Rightarrow> string result"
and String_FuncType :: "FuncType \<Rightarrow> string result"
and Strings :: "Type list \<Rightarrow> string list result" where
  "String InvalidType = Panic nil_dereference"
| "String VoidType = Ok ''void''"
| "String (PrimType x) = Ok x"
| "String (UnionType ts) =
     (case Strings ts of
        Ok s \<Rightarrow> Ok (''{'' @ Join s @ ''}'')
      | Err e \<Rightarrow> Err e
      | Panic m \<Rightarrow> Panic m)"
| "String (FuncT ft) = String_FuncType ft"
| "String_FuncType (FuncType as rs) =
     (case Strings as of
        Err e \<Rightarrow> Err e
      | Panic m \<Rightarrow> Panic m
      | Ok args \<Rightarrow>
          (case Strings rs of
             Err e \<Rightarrow> Err e
           | Panic m \<Rightarrow> Panic m
           | Ok rets \<Rightarrow> Ok (''func{'' @ Join args @ '' : '' @ Join rets @ ''}'')))"
| "Strings [] = Ok []"
| "Strings (t # ts) =
     (case String t of
        Err e \<Rightarrow> Err e
      | Panic m \<Rightarrow> Panic m
      | Ok x \<Rightarrow>
          (case Strings ts of
             Err e \<Rightarrow> Err e
           | Panic m \<Rightarrow> Panic m
           | Ok xs \<Rightarrow> Ok (x # xs)))"

text \<open>
  The verb \<open>%s\<close> of \<open>fmt\<close> on a non-nil \<open>Type\<close>: the result of its \<open>String\<close> method; \<open>fmt\<close>
  recovers a panic of the method and prints it instead.
\<close>

definition fmt_s :: "Type \<Rightarrow> string" where
  "fmt_s t =
     (case String t of
        Ok x \<Rightarrow> x
      | Err e \<Rightarrow> []
      | Panic m \<Rightarrow> ''%!s(PANIC=String method: '' @ m @ '')'')"

text \<open>
  \<open>sort.Slice\<close> with the comparison \<open>TypeCmp(types[i], types[j]) < 0\<close>. The library sorts a
  short slice (up to 12 members) by insertion: member \<open>i\<close> is swapped to the left while it
  is less than its left neighbour. \<open>sort_insert x ls\<close> inserts \<open>x\<close> into the members on its
  left, given nearest first; a panic of the comparison ends the sort. On a longer slice the
  library uses another algorithm; the members the parser builds are \<open>Prim\<close> types, which
  the comparison orders by name, so every sorting algorithm returns the same slice there.
\<close>

definition less_Type :: "Type \<Rightarrow> Type \<Rightarrow> bool result" where
  "less_Type a b =
     (case TypeCmp a b of Ok c \<Rightarrow> Ok (c < 0) | Err e \<Rightarrow> Err e | Panic m \<Rightarrow> Panic m)"

fun sort_insert :: "Type \<Rightarrow> Type list \<Rightarrow> Type list result" where
  "sort_insert x [] = Ok [x]"
| "sort_insert x (y # ls) =
     (case less_Type x y of
        Err e \<Rightarrow> Err e
      | Panic m \<Rightarrow> Panic m
      | Ok lt \<Rightarrow>
          (if lt then
             (case sort_insert x ls of
                Err e \<Rightarrow> Err e
              | Panic m \<Rightarrow> Panic m
              | Ok ls' \<Rightarrow> Ok (y # ls'))
           else Ok (x # y # ls)))"

fun sort_loop :: "Type list \<Rightarrow> Type list \<Rightarrow> Type list result" where
  "sort_loop ls [] = Ok (rev ls)"
| "sort_loop ls (x # xs) =
     (case sort_insert x ls of
        Err e \<Rightarrow> Err e
      | Panic m \<Rightarrow> Panic m
      | Ok ls' \<Rightarrow> sort_loop ls' xs)"

definition sort_Slice :: "Type list \<Rightarrow> Type list result" where
  "sort_Slice types = sort_loop [] types"

text \<open>
  The loop of \<open>NewUnionType\<close> over the sorted members: \<open>prev\<close> is \<open>types[i-1]\<close> (none at
  \<open>i = 0\<close>), \<open>all\<close> the whole sorted slice, for the message.
\<close>

fun NewUnionType_loop :: "Type list \<Rightarrow> Type option \<Rightarrow> Type list \<Rightarrow> unit result" where
  "NewUnionType_loop all prev [] = Ok ()"
| "NewUnionType_loop all None (t # ts) = NewUnionType_loop all (Some t) ts"
| "NewUnionType_loop all (Some t') (t # ts) =
     (case TypeEqual t t' of
        Err e \<Rightarrow> Err e
      | Panic m \<Rightarrow> Panic m
      | Ok eq \<Rightarrow>
          (if eq then
             Err (Errorf (''Duplicate type `'' @ fmt_s t @ ''` in union type `''
                    @ fmt_s (UnionType all) @ ''`.''))
           else NewUnionType_loop all (Some t) ts))"

definition NewUnionType :: "Type list \<Rightarrow> Type result" where
  "NewUnionType types =
     (case sort_Slice types of
        Err e \<Rightarrow> Err e
      | Panic m \<Rightarrow> Panic m
      | Ok types' \<Rightarrow>
          (case NewUnionType_loop types' None types' of
             Err e \<Rightarrow> Err e
           | Panic m \<Rightarrow> Panic m
           | Ok u \<Rightarrow> Ok (UnionType types')))"

text \<open>
  The \<open>Error\<close> method of an error made by \<open>fmt.Errorf\<close> is its message. The parser calls
  \<open>Error\<close> on the error of \<open>NewUnionType\<close> only, which is of that kind; the \<open>Error\<close> methods of
  the other kinds, which print positions, are not called by the functions modelled here.
\<close>

definition Errorf_Error :: "error \<Rightarrow> string" where
  "Errorf_Error e = (case e of Errorf msg \<Rightarrow> msg | _ \<Rightarrow> [])"

section \<open>Nodes\<close>

text \<open>
  \<open>strconv.ParseInt(s, 10, 64)\<close>: an optional sign and at least one decimal digit, nothing
  else, and a value that fits 64 bits in two's complement. \<open>digits_value\<close> reads the digits.
\<close>

fun digits_value :: "nat \<Rightarrow> string \<Rightarrow> nat option" where
  "digits_value acc [] = Some acc"
| "digits_value acc (c # cs) =
     (if isdigit (of_char c) then digits_value (10 * acc + (of_char c - 48)) cs else None)"

definition strconv_ParseInt :: "string \<Rightarrow> int64 option" where
  "strconv_ParseInt s =
     (case s of
        [] \<Rightarrow> None
      | c # cs \<Rightarrow>
          (let neg = (c = CHR ''-'');
               ds = (if c = CHR ''+'' \<or> c = CHR ''-'' then cs else s)
           in if ds = [] then None
              else
                (case digits_value 0 ds of
                   None \<Rightarrow> None
                 | Some un \<Rightarrow>
                     (if \<not> neg \<and> un \<ge> 2 ^ 63 then None
                      else if neg \<and> un > 2 ^ 63 then None
                      else Some (if neg then - of_nat un else of_nat un)))))"

record Arg =
  Arg_Name :: string
  Arg_Type :: Type

definition VoidArg :: Arg where
  "VoidArg = \<lparr>Arg_Name = [], Arg_Type = InvalidType\<rparr>"

datatype TypeDeclNode =
    TypeDeclNode (TypeDecl_Name: string) (TypeDecl_Type: Type)

text \<open>
  The interface \<open>Node\<close>. \<open>'f\<close> is the type of the values of float literals (\<open>float64\<close>, which
  has no embedding here; the parser takes \<open>strconv.ParseFloat\<close> as a parameter). Every node
  stores a pointer to its token, nil when the node was not made by the parser. \<open>FuncN\<close> is
  a \<open>*FuncNode\<close> seen as a \<open>Node\<close>, \<open>TypeDeclN\<close> a \<open>*TypeDeclNode\<close>.
\<close>

datatype 'f Node =
    LitIntNode int64 "Token option"
  | LitFloatNode 'f "Token option"
  | VerbNode string "Token option"
  | QuotNode string "Token option"
  | ReadVarNode string "Token option"
  | ExpNode "'f Node list" "Token option"
  | FuncN "'f FuncNode"
  | TypeDeclN TypeDeclNode
  | RootNode "'f FuncNode list" "(string \<times> TypeDeclNode) list"
and 'f FuncNode =
    FuncNode (Name: string) (Args: "Arg list") (Body: "'f Node list")
      (FuncNode_RetTypes: "Type list") (FuncNode_Token: "Token option")

section \<open>The parser\<close>

record Parser =
  p_tz :: tokenizer
  p_tkbuf :: "Token list"

definition NewParser :: "tokenizer \<Rightarrow> Parser" where
  "NewParser tz = \<lparr>p_tz = tz, p_tkbuf = []\<rparr>"

definition readbuf :: "Parser \<Rightarrow> Token option \<times> Parser" where
  "readbuf p =
     (case p_tkbuf p of
        [] \<Rightarrow> (None, p)
      | it # rest \<Rightarrow> (Some it, p\<lparr>p_tkbuf := rest\<rparr>))"

definition Parser_read :: "Parser \<Rightarrow> Token result \<times> Parser" where
  "Parser_read p =
     (case readbuf p of
        (Some it, p1) \<Rightarrow> (Ok it, p1)
      | (None, p1) \<Rightarrow>
          (case Next (p_tz p1) of
             (Err e, t1) \<Rightarrow> (Err e, p1\<lparr>p_tz := t1\<rparr>)
           | (Panic m, t1) \<Rightarrow> (Panic m, p1\<lparr>p_tz := t1\<rparr>)
           | (Ok tk, t1) \<Rightarrow> (Ok tk, p1\<lparr>p_tz := t1\<rparr>)))"

definition Parser_unread :: "Parser \<Rightarrow> Token \<Rightarrow> Parser" where
  "Parser_unread p tk = p\<lparr>p_tkbuf := p_tkbuf p @ [tk]\<rparr>"

definition pm :: "Parser \<Rightarrow> nat" where
  "pm p = 2 * tzm (p_tz p) + length (p_tkbuf p)"

lemma Parser_unread_pm [simp]: "pm (Parser_unread p tk) = pm p + 1"
  by (simp add: Parser_unread_def pm_def)

lemma Parser_read_pm:
  assumes "Parser_read p = (r, p')"
  shows "pm p' \<le> pm p"
    and "(\<And>tk. r = Ok tk \<Longrightarrow> TkType tk \<noteq> TT_EOF) \<Longrightarrow> pm p' + 1 \<le> pm p"
    and "(\<And>tk. r = Ok tk \<Longrightarrow> TkType tk \<noteq> TT_EOF) \<Longrightarrow> p_tkbuf p = [] \<Longrightarrow> pm p' + 2 \<le> pm p"
proof -
  show "pm p' \<le> pm p"
  proof (cases "p_tkbuf p")
    case Nil
    obtain x t1 where nx: "Next (p_tz p) = (x, t1)" by (cases "Next (p_tz p)")
    with assms Nil have "p' = p\<lparr>p_tz := t1\<rparr>"
      by (auto simp: Parser_read_def readbuf_def split: result.splits)
    with Next_tzm(1) [OF nx] show ?thesis by (simp add: pm_def)
  next
    case (Cons it rest)
    with assms show ?thesis by (auto simp: Parser_read_def readbuf_def pm_def)
  qed
  assume ne: "\<And>tk. r = Ok tk \<Longrightarrow> TkType tk \<noteq> TT_EOF"
  show "pm p' + 1 \<le> pm p"
  proof (cases "p_tkbuf p")
    case Nil
    obtain x t1 where nx: "Next (p_tz p) = (x, t1)" by (cases "Next (p_tz p)")
    with assms Nil have *: "p' = p\<lparr>p_tz := t1\<rparr>" "r = x"
      by (auto simp: Parser_read_def readbuf_def split: result.splits)
    with Next_tzm(2) [OF nx] ne show ?thesis by (simp add: pm_def)
  next
    case (Cons it rest)
    with assms show ?thesis by (auto simp: Parser_read_def readbuf_def pm_def)
  qed
  assume Nil: "p_tkbuf p = []"
  obtain x t1 where nx: "Next (p_tz p) = (x, t1)" by (cases "Next (p_tz p)")
  with assms Nil have *: "p' = p\<lparr>p_tz := t1\<rparr>" "r = x"
    by (auto simp: Parser_read_def readbuf_def split: result.splits)
  with Next_tzm(2) [OF nx] ne show "pm p' + 2 \<le> pm p" by (simp add: pm_def)
qed


text \<open>
  \<open>parseData\<close>. In the \<open>TT_QUOT\<close> case the error of the second \<open>read\<close> is not tested: when
  the tokenizer fails there, \<open>tk\<close> is nil and \<open>tk.Type\<close> dereferences it.
\<close>

definition parseData :: "(string \<Rightarrow> 'f option) \<Rightarrow> Parser \<Rightarrow> 'f Node result \<times> Parser" where
  "parseData ParseFloat p =
     (case Parser_read p of
        (Err e, p1) \<Rightarrow> (Err e, p1)
      | (Panic m, p1) \<Rightarrow> (Panic m, p1)
      | (Ok tk, p1) \<Rightarrow>
          (if TkType tk = TT_LITINT then
             (case strconv_ParseInt (SVal tk) of
                None \<Rightarrow>
                  (Err (ParserError tk (''`'' @ SVal tk @ ''` is not a valid integer literal.'')), p1)
              | Some iv \<Rightarrow> (Ok (LitIntNode iv (Some tk)), p1))
           else if TkType tk = TT_LITFLOAT then
             (case ParseFloat (SVal tk) of
                None \<Rightarrow>
                  (Err (ParserError tk (''`'' @ SVal tk @ ''` is not a valid float literal.'')), p1)
              | Some fv \<Rightarrow> (Ok (LitFloatNode fv (Some tk)), p1))
           else if TkType tk = TT_IDENT then (Ok (VerbNode (SVal tk) (Some tk)), p1)
           else if TkType tk = TT_QUOT then
             (case Parser_read p1 of
                (Err e, p2) \<Rightarrow> (Panic nil_dereference, p2)
              | (Panic m, p2) \<Rightarrow> (Panic m, p2)
              | (Ok tk', p2) \<Rightarrow>
                  (if TkType tk' \<noteq> TT_IDENT then
                     (Err (ParserError tk' (''Expected identifier but got `'' @ SVal tk' @ ''`.'')), p2)
                   else (Ok (QuotNode (SVal tk') (Some tk')), p2)))
           else
             (Err (ParserError tk (''Expected literal but got `'' @ SVal tk @ ''`.'')), p1)))"

lemma parseData_pm:
  assumes "parseData pf p = (r, p')"
  shows "pm p' \<le> pm p" and "\<And>n. r = Ok n \<Longrightarrow> pm p' < pm p"
proof -
  obtain x p1 where rd: "Parser_read p = (x, p1)" by (cases "Parser_read p")
  obtain y p2 where rd2: "Parser_read p1 = (y, p2)" by (cases "Parser_read p1")
  note le1 = Parser_read_pm(1) [OF rd] and le2 = Parser_read_pm(1) [OF rd2]
  from assms rd rd2 le1 le2 show "pm p' \<le> pm p"
    by (auto simp: parseData_def split: result.splits option.splits if_splits)
  fix n assume "r = Ok n"
  with assms rd obtain tk where x: "x = Ok tk" and ne: "TkType tk \<noteq> TT_EOF"
    by (auto simp: parseData_def split: result.splits option.splits if_splits)
  from Parser_read_pm(2) [OF rd] x ne have "pm p1 < pm p" by simp
  with assms rd rd2 le2 x show "pm p' < pm p"
    by (auto simp: parseData_def split: result.splits option.splits if_splits)
qed

text \<open>
  \<open>parseType\<close>, with the loop that reads the members of a union as \<open>parseType_union\<close>. The
  token of the error for a duplicate member is the \<open>{\<close> that opened the union (the \<open>tk\<close> of
  the loop is a variable of its own).
\<close>

function parseType :: "Parser \<Rightarrow> Type result \<times> Parser"
and parseType_union :: "Parser \<Rightarrow> Type list \<Rightarrow> Type list result \<times> Parser" where
  "parseType p =
     (case Parser_read p of
        (Err e, p1) \<Rightarrow> (Err e, p1)
      | (Panic m, p1) \<Rightarrow> (Panic m, p1)
      | (Ok tk, p1) \<Rightarrow>
          (if TkType tk = TT_IDENT then (Ok (PrimType (SVal tk)), p1)
           else if TkType tk = TT_LCBRACKET then
             (case parseType_union p1 [] of
                (Err e, p2) \<Rightarrow> (Err e, p2)
              | (Panic m, p2) \<Rightarrow> (Panic m, p2)
              | (Ok types, p2) \<Rightarrow>
                  (case NewUnionType types of
                     Err e \<Rightarrow> (Err (ParserError tk (Errorf_Error e)), p2)
                   | Panic m \<Rightarrow> (Panic m, p2)
                   | Ok ut \<Rightarrow> (Ok ut, p2)))
           else (Err (ParserError tk (''`'' @ SVal tk @ ''` is not a type.'')), p1)))"
| "parseType_union p types =
     (case Parser_read p of
        (Err e, p1) \<Rightarrow> (Err e, p1)
      | (Panic m, p1) \<Rightarrow> (Panic m, p1)
      | (Ok tk, p1) \<Rightarrow>
          (if TkType tk = TT_IDENT then
             (case parseType (Parser_unread p1 tk) of
                (Err e, p2) \<Rightarrow> (Err e, p2)
              | (Panic m, p2) \<Rightarrow> (Panic m, p2)
              | (Ok typ, p2) \<Rightarrow> parseType_union p2 (types @ [typ]))
           else if TkType tk = TT_LCBRACKET then
             (Err (ParserError tk
                (''Unexpected '' @ SVal tk @ ''. Union types can not be nested.'')), p1)
           else if TkType tk = TT_RCBRACKET then (Ok types, p1)
           else
             (Err (ParserError tk (''Expected identifier but got `'' @ SVal tk @ ''`.'')), p1)))"
  by pat_completeness auto

lemma parseType_pm_partial:
  "parseType_parseType_union_dom (Inl p) \<Longrightarrow> parseType p = (r, p')
     \<Longrightarrow> pm p' \<le> pm p \<and> ((\<exists>v. r = Ok v) \<longrightarrow> pm p' < pm p)"
  "parseType_parseType_union_dom (Inr (q, types)) \<Longrightarrow> parseType_union q types = (r', q')
     \<Longrightarrow> pm q' \<le> pm q \<and> ((\<exists>v. r' = Ok v) \<longrightarrow> pm q' < pm q)"
proof (induction p and q types arbitrary: r p' and r' q' rule: parseType_parseType_union.pinduct)
  case (1 p)
  obtain x p1 where rd: "Parser_read p = (x, p1)" by (cases "Parser_read p")
  note le1 = Parser_read_pm(1) [OF rd]
  show ?case
  proof (cases x)
    case (Ok tk)
    show ?thesis
    proof (cases "TkType tk = TT_LCBRACKET")
      case True
      from Parser_read_pm(2) [OF rd] Ok True have lt: "pm p1 < pm p" by simp
      obtain y p2 where un: "parseType_union p1 [] = (y, p2)" by (cases "parseType_union p1 []")
      from True have ni: "TkType tk \<noteq> TT_IDENT" by simp
      from "1.IH" [OF rd [symmetric] Ok ni True un]
      have "pm p2 \<le> pm p1" by simp
      with "1.prems" "1.hyps" rd Ok True un lt show ?thesis
        by (auto simp: parseType.psimps split: result.splits)
    next
      case False
      from Parser_read_pm(2) [OF rd] Ok
      have "TkType tk = TT_IDENT \<Longrightarrow> pm p1 < pm p" by simp
      with "1.prems" "1.hyps" rd Ok False le1 show ?thesis
        by (auto simp: parseType.psimps split: if_splits)
    qed
  next
    case (Err e)
    with "1.prems" "1.hyps" rd le1 show ?thesis by (auto simp: parseType.psimps)
  next
    case (Panic m)
    with "1.prems" "1.hyps" rd le1 show ?thesis by (auto simp: parseType.psimps)
  qed
next
  case (2 q types)
  obtain x p1 where rd: "Parser_read q = (x, p1)" by (cases "Parser_read q")
  note le1 = Parser_read_pm(1) [OF rd]
  show ?case
  proof (cases x)
    case (Ok tk)
    show ?thesis
    proof (cases "TkType tk = TT_IDENT")
      case True
      from Parser_read_pm(2) [OF rd] Ok True have lt: "pm p1 + 1 \<le> pm q" by simp
      obtain y p2 where ty: "parseType (Parser_unread p1 tk) = (y, p2)"
        by (cases "parseType (Parser_unread p1 tk)")
      from "2.IH"(1) [OF rd [symmetric] Ok True ty]
      have le2: "pm p2 \<le> pm p1 + 1" and lt2: "(\<exists>v. y = Ok v) \<longrightarrow> pm p2 < pm p1 + 1" by simp_all
      show ?thesis
      proof (cases y)
        case (Ok ty')
        with "2.prems" "2.hyps" rd \<open>x = Ok tk\<close> True ty
        have rec: "parseType_union p2 (types @ [ty']) = (r', q')"
          by (auto simp: parseType_union.psimps)
        from "2.IH"(2) [OF rd [symmetric] \<open>x = Ok tk\<close> True ty [symmetric] Ok rec]
        have "pm q' \<le> pm p2" by simp
        with lt2 Ok lt show ?thesis by simp
      next
        case (Err e)
        with "2.prems" "2.hyps" rd \<open>x = Ok tk\<close> True ty le2 lt show ?thesis
          by (auto simp: parseType_union.psimps)
      next
        case (Panic m)
        with "2.prems" "2.hyps" rd \<open>x = Ok tk\<close> True ty le2 lt show ?thesis
          by (auto simp: parseType_union.psimps)
      qed
    next
      case False
      from Parser_read_pm(2) [OF rd] Ok
      have "TkType tk = TT_RCBRACKET \<Longrightarrow> pm p1 < pm q" by simp
      with "2.prems" "2.hyps" rd Ok False le1 show ?thesis
        by (auto simp: parseType_union.psimps split: if_splits)
    qed
  next
    case (Err e)
    with "2.prems" "2.hyps" rd le1 show ?thesis by (auto simp: parseType_union.psimps)
  next
    case (Panic m)
    with "2.prems" "2.hyps" rd le1 show ?thesis by (auto simp: parseType_union.psimps)
  qed
qed

lemma parseType_dom: "parseType_parseType_union_dom x"
proof -
  have "All parseType_parseType_union_dom"
proof (relation "measure (\<lambda>x. case x of Inl p \<Rightarrow> 2 * pm p | Inr (p, types) \<Rightarrow> 2 * pm p + 1)")
  show "wf (measure (\<lambda>x. case x of Inl p \<Rightarrow> 2 * pm p | Inr (p, types) \<Rightarrow> 2 * pm p + 1))"
    by simp
next
  fix p x p1 tk
  assume "(x, p1) = Parser_read p" "x = Ok tk" "TkType tk \<noteq> TT_IDENT" "TkType tk = TT_LCBRACKET"
  with Parser_read_pm(2) [of p x p1]
  show "(Inr (p1, []), Inl p) \<in> measure (\<lambda>x. case x of Inl p \<Rightarrow> 2 * pm p | Inr (p, types) \<Rightarrow> 2 * pm p + 1)"
    by auto
next
  fix p types x p1 tk
  assume "(x, p1) = Parser_read p" "x = Ok tk" "TkType tk = TT_IDENT"
  with Parser_read_pm(2) [of p x p1]
  show "(Inl (Parser_unread p1 tk), Inr (p, types)) \<in> measure (\<lambda>x. case x of Inl p \<Rightarrow> 2 * pm p | Inr (p, types) \<Rightarrow> 2 * pm p + 1)"
    by auto
next
  fix p types x p1 tk y p2 ty'
  assume a: "(x, p1) = Parser_read p" "x = Ok tk" "TkType tk = TT_IDENT"
    and b: "(y, p2) = parseType (Parser_unread p1 tk)" "y = Ok ty'"
    and d: "parseType_parseType_union_dom (Inl (Parser_unread p1 tk))"
  from parseType_pm_partial(1) [OF d b(1) [symmetric]] b(2)
  have "pm p2 < pm p1 + 1" by simp
  with Parser_read_pm(2) [of p x p1] a
  show "(Inr (p2, types @ [ty']), Inr (p, types)) \<in> measure (\<lambda>x. case x of Inl p \<Rightarrow> 2 * pm p | Inr (p, types) \<Rightarrow> 2 * pm p + 1)"
    by auto
qed
  then show ?thesis by simp
qed

termination parseType
  by (simp add: parseType_dom)

lemma parseType_pm:
  assumes "parseType p = (r, p')"
  shows "pm p' \<le> pm p" and "\<And>v. r = Ok v \<Longrightarrow> pm p' < pm p"
  using parseType_pm_partial(1) [OF parseType_dom assms] by auto

declare parseType.simps [simp del] parseType_union.simps [simp del]


text \<open>
  \<open>parseArg\<close>. When the first or the second \<open>read\<close> fails, the function returns \<open>VoidArg\<close>
  with a nil error.
\<close>

definition parseArg :: "Parser \<Rightarrow> Arg result \<times> Parser" where
  "parseArg p =
     (case Parser_read p of
        (Err e, p1) \<Rightarrow> (Ok VoidArg, p1)
      | (Panic m, p1) \<Rightarrow> (Panic m, p1)
      | (Ok tk, p1) \<Rightarrow>
          (if TkType tk \<noteq> TT_LPAREN then
             (Err (ParserError tk (''Expected `(` but got `'' @ SVal tk @ ''`.'')), p1)
           else
             (case Parser_read p1 of
                (Err e, p2) \<Rightarrow> (Ok VoidArg, p2)
              | (Panic m, p2) \<Rightarrow> (Panic m, p2)
              | (Ok tk2, p2) \<Rightarrow>
                  (if TkType tk2 \<noteq> TT_IDENT then
                     (Err (ParserError tk2
                        (''Expected identifier but got `'' @ SVal tk2 @ ''`.'')), p2)
                   else
                     (case parseType p2 of
                        (Err e, p3) \<Rightarrow> (Err e, p3)
                      | (Panic m, p3) \<Rightarrow> (Panic m, p3)
                      | (Ok tp, p3) \<Rightarrow>
                          (case Parser_read p3 of
                             (Err e, p4) \<Rightarrow> (Err e, p4)
                           | (Panic m, p4) \<Rightarrow> (Panic m, p4)
                           | (Ok tk3, p4) \<Rightarrow>
                               (if TkType tk3 \<noteq> TT_RPAREN then
                                  (Err (ParserError tk3
                                     (''Expected `)` but got `'' @ SVal tk3 @ ''`.'')), p4)
                                else
                                  (Ok \<lparr>Arg_Name = SVal tk2, Arg_Type = tp\<rparr>, p4))))))))"

lemma parseArg_pm:
  assumes "parseArg p = (r, p')"
  shows "pm p' \<le> pm p" and "\<And>v. r = Ok v \<Longrightarrow> pm p' < pm p"
proof -
  obtain x1 p1 where r1: "Parser_read p = (x1, p1)" by (cases "Parser_read p")
  obtain x2 p2 where r2: "Parser_read p1 = (x2, p2)" by (cases "Parser_read p1")
  obtain x3 p3 where r3: "parseType p2 = (x3, p3)" by (cases "parseType p2")
  obtain x4 p4 where r4: "Parser_read p3 = (x4, p4)" by (cases "Parser_read p3")
  note le = Parser_read_pm(1) [OF r1] Parser_read_pm(1) [OF r2] parseType_pm(1) [OF r3]
    Parser_read_pm(1) [OF r4]
  from assms r1 r2 r3 r4 le show "pm p' \<le> pm p"
    by (auto simp: parseArg_def split: result.splits if_splits)
  fix v assume ok: "r = Ok v"
  have "pm p1 < pm p"
  proof (cases x1)
    case (Ok tk)
    with assms r1 ok have "TkType tk = TT_LPAREN"
      by (auto simp: parseArg_def split: if_splits)
    with Parser_read_pm(2) [OF r1] Ok show ?thesis by simp
  next
    case (Err e)
    with Parser_read_pm(2) [OF r1] show ?thesis by simp
  next
    case (Panic m)
    with Parser_read_pm(2) [OF r1] show ?thesis by simp
  qed
  with assms r1 r2 r3 r4 le show "pm p' < pm p"
    by (auto simp: parseArg_def split: result.splits if_splits)
qed

text \<open>
  \<open>parseExp\<close>. \<open>nodes\<close> is a slice of length 8 that is never resized: storing a ninth node
  is an index out of range. The model keeps the nodes stored so far (\<open>nodes[:nj]\<close>).
\<close>

definition first_token :: "Token option \<Rightarrow> Token \<Rightarrow> Token option" where
  "first_token firsttk tk = (case firsttk of None \<Rightarrow> Some tk | Some f \<Rightarrow> Some f)"

function parseExp_loop ::
  "(string \<Rightarrow> 'f option) \<Rightarrow> Parser \<Rightarrow> Token option \<Rightarrow> 'f Node list \<Rightarrow> 'f Node result \<times> Parser"
where
  "parseExp_loop ParseFloat p firsttk nodes =
     (case Parser_read p of
        (Err e, p1) \<Rightarrow> (Err e, p1)
      | (Panic m, p1) \<Rightarrow> (Panic m, p1)
      | (Ok tk, p1) \<Rightarrow>
          (if TkType tk = TT_LITINT \<or> TkType tk = TT_LITFLOAT \<or> TkType tk = TT_IDENT
              \<or> TkType tk = TT_QUOT then
             (case parseData ParseFloat (Parser_unread p1 tk) of
                (Err e, p2) \<Rightarrow> (Err e, p2)
              | (Panic m, p2) \<Rightarrow> (Panic m, p2)
              | (Ok node, p2) \<Rightarrow>
                  (if length nodes \<ge> 8 then (Panic index_out_of_range, p2)
                   else parseExp_loop ParseFloat p2 (first_token firsttk tk) (nodes @ [node])))
           else if TkType tk = TT_SEMICOLON then
             (Ok (ExpNode nodes (first_token firsttk tk)), p1)
           else
             (Err (ParserError tk
                (''Expected literal, identifier, `;` or `'' @ [CHR 0x27] @ ''` but got `''
                   @ SVal tk @ ''`.'')), p1)))"
  by pat_completeness auto
termination
proof (relation "measure (\<lambda>(pf, p, firsttk, nodes). pm p)")
  show "wf (measure (\<lambda>(pf, p, firsttk, nodes). pm p))" by simp
next
  fix pf :: "string \<Rightarrow> 'f option" and p firsttk and nodes :: "'f Node list"
    and x p1 tk y p2 and node :: "'f Node"
  assume a: "(x, p1) = Parser_read p" "x = Ok tk"
    "TkType tk = TT_LITINT \<or> TkType tk = TT_LITFLOAT \<or> TkType tk = TT_IDENT \<or> TkType tk = TT_QUOT"
    and b: "(y, p2) = parseData pf (Parser_unread p1 tk)" "y = Ok node"
  from Parser_read_pm(2) [OF a(1) [symmetric]] a have "pm p1 + 1 \<le> pm p" by auto
  moreover from parseData_pm(2) [OF b(1) [symmetric]] b have "pm p2 < pm p1 + 1" by simp
  ultimately show "((pf, p2, first_token firsttk tk, nodes @ [node]), (pf, p, firsttk, nodes))
    \<in> measure (\<lambda>(pf, p, firsttk, nodes). pm p)" by simp
qed

declare parseExp_loop.simps [simp del]

definition parseExp :: "(string \<Rightarrow> 'f option) \<Rightarrow> Parser \<Rightarrow> 'f Node result \<times> Parser" where
  "parseExp ParseFloat p = parseExp_loop ParseFloat p None []"

lemma parseExp_loop_pm:
  "parseExp_loop pf p firsttk nodes = (r, p')
     \<Longrightarrow> pm p' \<le> pm p \<and> ((\<exists>v. r = Ok v) \<longrightarrow> pm p' < pm p)"
proof (induction pf p firsttk nodes arbitrary: r p' rule: parseExp_loop.induct)
  case (1 pf p firsttk nodes)
  obtain x p1 where rd: "Parser_read p = (x, p1)" by (cases "Parser_read p")
  note le1 = Parser_read_pm(1) [OF rd]
  show ?case
  proof (cases x)
    case (Ok tk)
    show ?thesis
    proof (cases "TkType tk = TT_LITINT \<or> TkType tk = TT_LITFLOAT \<or> TkType tk = TT_IDENT
              \<or> TkType tk = TT_QUOT")
      case True
      from Parser_read_pm(2) [OF rd] Ok True have lt: "pm p1 + 1 \<le> pm p" by auto
      obtain y p2 where pd: "parseData pf (Parser_unread p1 tk) = (y, p2)"
        by (cases "parseData pf (Parser_unread p1 tk)")
      from parseData_pm [OF pd]
      have le2: "pm p2 \<le> pm p1 + 1" and lt2: "\<And>n. y = Ok n \<Longrightarrow> pm p2 < pm p1 + 1" by simp_all
      show ?thesis
      proof (cases y)
        case (Ok node)
        show ?thesis
        proof (cases "length nodes \<ge> 8")
          case True
          with "1.prems" rd \<open>x = Ok tk\<close> \<open>TkType tk = TT_LITINT \<or> _\<close> pd Ok le2 lt show ?thesis
            by (subst (asm) parseExp_loop.simps) auto
        next
          case False
          with "1.prems" rd \<open>x = Ok tk\<close> \<open>TkType tk = TT_LITINT \<or> _\<close> pd Ok
          have rec: "parseExp_loop pf p2 (first_token firsttk tk) (nodes @ [node]) = (r, p')"
            by (subst (asm) parseExp_loop.simps) auto
          from "1.IH" [OF rd [symmetric] \<open>x = Ok tk\<close> \<open>TkType tk = TT_LITINT \<or> _\<close>
              pd [symmetric] Ok False rec]
          have "pm p' \<le> pm p2" by simp
          with lt2 [OF Ok] lt show ?thesis by simp
        qed
      next
        case (Err e)
        with "1.prems" rd \<open>x = Ok tk\<close> True pd le2 lt show ?thesis
          by (subst (asm) parseExp_loop.simps) auto
      next
        case (Panic m)
        with "1.prems" rd \<open>x = Ok tk\<close> True pd le2 lt show ?thesis
          by (subst (asm) parseExp_loop.simps) auto
      qed
    next
      case False
      from Parser_read_pm(2) [OF rd] Ok
      have "TkType tk = TT_SEMICOLON \<Longrightarrow> pm p1 < pm p" by simp
      with "1.prems" rd Ok False le1 show ?thesis
        by (subst (asm) parseExp_loop.simps) (auto split: if_splits)
    qed
  next
    case (Err e)
    with "1.prems" rd le1 show ?thesis by (subst (asm) parseExp_loop.simps) auto
  next
    case (Panic m)
    with "1.prems" rd le1 show ?thesis by (subst (asm) parseExp_loop.simps) auto
  qed
qed

lemma parseExp_pm:
  assumes "parseExp pf p = (r, p')"
  shows "pm p' \<le> pm p" and "\<And>v. r = Ok v \<Longrightarrow> pm p' < pm p"
  using parseExp_loop_pm [OF assms [unfolded parseExp_def]] by auto


text \<open>
  A token that was read and put back is read again by the next \<open>read\<close> when the buffer was
  empty; otherwise reading it took it from the buffer.
\<close>

lemma Parser_read_unread:
  assumes "Parser_read p = (Ok tk, p1)"
  shows "pm p1 + 1 \<le> pm p \<or>
         (TkType tk = TT_EOF \<and> Parser_read (Parser_unread p1 tk) = (Ok tk, p1) \<and> pm p1 \<le> pm p)"
proof (cases "TkType tk = TT_EOF")
  case False
  with Parser_read_pm(2) [OF assms] show ?thesis by simp
next
  case True
  show ?thesis
  proof (cases "p_tkbuf p")
    case Nil
    obtain x t1 where nx: "Next (p_tz p) = (x, t1)" by (cases "Next (p_tz p)")
    with assms Nil have *: "p1 = p\<lparr>p_tz := t1\<rparr>"
      by (auto simp: Parser_read_def readbuf_def split: result.splits)
    with Nil have "Parser_read (Parser_unread p1 tk) = (Ok tk, p1)"
      by (simp add: Parser_read_def readbuf_def Parser_unread_def)
    with True Parser_read_pm(1) [OF assms] show ?thesis by simp
  next
    case (Cons it rest)
    with assms show ?thesis by (auto simp: Parser_read_def readbuf_def pm_def)
  qed
qed

lemma parseType_after_unread:
  assumes "Parser_read p = (Ok tk, p1)" and "parseType (Parser_unread p1 tk) = (r, p2)"
  shows "pm p2 \<le> pm p" and "\<And>v. r = Ok v \<Longrightarrow> pm p2 < pm p"
proof -
  from Parser_read_unread [OF assms(1)]
  have "pm p2 \<le> pm p \<and> ((\<exists>v. r = Ok v) \<longrightarrow> pm p2 < pm p)"
  proof
    assume "pm p1 + 1 \<le> pm p"
    with parseType_pm [OF assms(2)] show ?thesis by fastforce
  next
    assume "TkType tk = TT_EOF \<and> Parser_read (Parser_unread p1 tk) = (Ok tk, p1) \<and> pm p1 \<le> pm p"
    with assms(2) show ?thesis by (auto simp: parseType.simps)
  qed
  then show "pm p2 \<le> pm p" and "\<And>v. r = Ok v \<Longrightarrow> pm p2 < pm p" by auto
qed

lemma parseExp_after_unread:
  assumes "Parser_read p = (Ok tk, p1)" and "parseExp pf (Parser_unread p1 tk) = (r, p2)"
  shows "pm p2 \<le> pm p" and "\<And>v. r = Ok v \<Longrightarrow> pm p2 < pm p"
proof -
  from Parser_read_unread [OF assms(1)]
  have "pm p2 \<le> pm p \<and> ((\<exists>v. r = Ok v) \<longrightarrow> pm p2 < pm p)"
  proof
    assume "pm p1 + 1 \<le> pm p"
    with parseExp_pm [OF assms(2)] show ?thesis by fastforce
  next
    assume "TkType tk = TT_EOF \<and> Parser_read (Parser_unread p1 tk) = (Ok tk, p1) \<and> pm p1 \<le> pm p"
    with assms(2) show ?thesis by (auto simp: parseExp_def parseExp_loop.simps)
  qed
  then show "pm p2 \<le> pm p" and "\<And>v. r = Ok v \<Longrightarrow> pm p2 < pm p" by auto
qed

text \<open>\<open>parseIf\<close> is not written yet: it panics.\<close>

definition parseIf :: "Parser \<Rightarrow> 'f Node result \<times> Parser" where
  "parseIf p = (Panic ''BUG'', p)"

text \<open>
  The three loops of \<open>parseFunc\<close>: the arguments up to \<open>]\<close>, the return types up to \<open>]\<close>
  and the body up to \<open>}\<close>. \<open>args\<close> and \<open>bodies\<close> are slices of length 8 that are never
  resized; \<open>rets\<close> grows by \<open>append\<close>.
\<close>

function parseFunc_args :: "Parser \<Rightarrow> Arg list \<Rightarrow> Arg list result \<times> Parser" where
  "parseFunc_args p args =
     (case Parser_read p of
        (Err e, p1) \<Rightarrow> (Err e, p1)
      | (Panic m, p1) \<Rightarrow> (Panic m, p1)
      | (Ok tk, p1) \<Rightarrow>
          (if TkType tk = TT_RBRACKET then (Ok args, p1)
           else if TkType tk = TT_LPAREN then
             (case parseArg (Parser_unread p1 tk) of
                (Err e, p2) \<Rightarrow> (Err e, p2)
              | (Panic m, p2) \<Rightarrow> (Panic m, p2)
              | (Ok arg, p2) \<Rightarrow>
                  (if length args \<ge> 8 then (Panic index_out_of_range, p2)
                   else parseFunc_args p2 (args @ [arg])))
           else
             (Err (ParserError tk (''Expected `(` or `)` but got `'' @ SVal tk @ ''`'')), p1)))"
  by pat_completeness auto
termination
proof (relation "measure (\<lambda>(p, args). pm p)")
  show "wf (measure (\<lambda>(p, args). pm p))" by simp
next
  fix p args x p1 tk y p2 arg
  assume a: "(x, p1) = Parser_read p" "x = Ok tk" "TkType tk = TT_LPAREN"
    and b: "(y, p2) = parseArg (Parser_unread p1 tk)" "y = Ok arg"
  from Parser_read_pm(2) [OF a(1) [symmetric]] a have "pm p1 + 1 \<le> pm p" by auto
  moreover from parseArg_pm(2) [OF b(1) [symmetric]] b have "pm p2 < pm p1 + 1" by simp
  ultimately show "((p2, args @ [arg]), (p, args)) \<in> measure (\<lambda>(p, args). pm p)" by simp
qed

declare parseFunc_args.simps [simp del]

function parseFunc_rets :: "Parser \<Rightarrow> Type list \<Rightarrow> Type list result \<times> Parser" where
  "parseFunc_rets p rets =
     (case Parser_read p of
        (Err e, p1) \<Rightarrow> (Err e, p1)
      | (Panic m, p1) \<Rightarrow> (Panic m, p1)
      | (Ok tk, p1) \<Rightarrow>
          (if TkType tk = TT_RBRACKET then (Ok rets, p1)
           else
             (case parseType (Parser_unread p1 tk) of
                (Err e, p2) \<Rightarrow> (Err e, p2)
              | (Panic m, p2) \<Rightarrow> (Panic m, p2)
              | (Ok ret, p2) \<Rightarrow> parseFunc_rets p2 (rets @ [ret]))))"
  by pat_completeness auto
termination
proof (relation "measure (\<lambda>(p, rets). pm p)")
  show "wf (measure (\<lambda>(p, rets). pm p))" by simp
next
  fix p rets x p1 tk y p2 ret
  assume a: "(x, p1) = Parser_read p" "x = Ok tk"
    and b: "(y, p2) = parseType (Parser_unread p1 tk)" "y = Ok ret"
  from a have "Parser_read p = (Ok tk, p1)" by simp
  from parseType_after_unread(2) [OF this b(1) [symmetric] b(2)]
  show "((p2, rets @ [ret]), (p, rets)) \<in> measure (\<lambda>(p, rets). pm p)" by simp
qed

declare parseFunc_rets.simps [simp del]

function parseFunc_body ::
  "(string \<Rightarrow> 'f option) \<Rightarrow> Parser \<Rightarrow> 'f Node list \<Rightarrow> 'f Node list result \<times> Parser" where
  "parseFunc_body ParseFloat p bodies =
     (case Parser_read p of
        (Err e, p1) \<Rightarrow> (Err e, p1)
      | (Panic m, p1) \<Rightarrow> (Panic m, p1)
      | (Ok tk, p1) \<Rightarrow>
          (if TkType tk = TT_RCBRACKET then (Ok bodies, p1)
           else if TkType tk = TT_IF then
             (case parseIf (Parser_unread p1 tk) of
                (Err e, p2) \<Rightarrow> (Err e, p2)
              | (Panic m, p2) \<Rightarrow> (Panic m, p2)
              | (Ok ifn, p2) \<Rightarrow>
                  (if length bodies \<ge> 8 then (Panic index_out_of_range, p2)
                   else parseFunc_body ParseFloat p2 (bodies @ [ifn])))
           else
             (case parseExp ParseFloat (Parser_unread p1 tk) of
                (Err e, p2) \<Rightarrow> (Err e, p2)
              | (Panic m, p2) \<Rightarrow> (Panic m, p2)
              | (Ok sexp, p2) \<Rightarrow>
                  (if length bodies \<ge> 8 then (Panic index_out_of_range, p2)
                   else parseFunc_body ParseFloat p2 (bodies @ [sexp])))))"
  by pat_completeness auto
termination
proof (relation "measure (\<lambda>(pf, p, bodies). pm p)")
  show "wf (measure (\<lambda>(pf, p, bodies). pm p))" by simp
next
  fix pf :: "string \<Rightarrow> 'f option" and p and bodies :: "'f Node list" and x p1 tk y p2
    and ifn :: "'f Node"
  assume "(y, p2) = parseIf (Parser_unread p1 tk)" "y = Ok ifn"
  then show "((pf, p2, bodies @ [ifn]), (pf, p, bodies)) \<in> measure (\<lambda>(pf, p, bodies). pm p)"
    by (simp add: parseIf_def)
next
  fix pf :: "string \<Rightarrow> 'f option" and p and bodies :: "'f Node list" and x p1 tk y p2
    and sexp :: "'f Node"
  assume a: "(x, p1) = Parser_read p" "x = Ok tk"
    and b: "(y, p2) = parseExp pf (Parser_unread p1 tk)" "y = Ok sexp"
  from a have "Parser_read p = (Ok tk, p1)" by simp
  from parseExp_after_unread(2) [OF this b(1) [symmetric] b(2)]
  show "((pf, p2, bodies @ [sexp]), (pf, p, bodies)) \<in> measure (\<lambda>(pf, p, bodies). pm p)"
    by simp
qed

declare parseFunc_body.simps [simp del]


lemma parseFunc_args_pm: "parseFunc_args p args = (r, p') \<Longrightarrow> pm p' \<le> pm p"
proof (induction p args arbitrary: r p' rule: parseFunc_args.induct)
  case (1 p args)
  obtain x p1 where rd: "Parser_read p = (x, p1)" by (cases "Parser_read p")
  note le1 = Parser_read_pm(1) [OF rd]
  show ?case
  proof (cases x)
    case (Ok tk)
    show ?thesis
    proof (cases "TkType tk = TT_LPAREN")
      case True
      from Parser_read_pm(2) [OF rd] Ok True have lt: "pm p1 + 1 \<le> pm p" by auto
      obtain y p2 where pa: "parseArg (Parser_unread p1 tk) = (y, p2)"
        by (cases "parseArg (Parser_unread p1 tk)")
      from parseArg_pm(1) [OF pa] have le2: "pm p2 \<le> pm p1 + 1" by simp
      from True have nr: "TkType tk \<noteq> TT_RBRACKET" by simp
      show ?thesis
      proof (cases "\<exists>arg. y = Ok arg \<and> \<not> length args \<ge> 8")
        case True
        then obtain arg where y: "y = Ok arg" and len: "\<not> length args \<ge> 8" by auto
        with "1.prems" rd Ok \<open>TkType tk = TT_LPAREN\<close> pa
        have rec: "parseFunc_args p2 (args @ [arg]) = (r, p')"
          by (subst (asm) parseFunc_args.simps) auto
        from "1.IH" [OF rd [symmetric] Ok nr \<open>TkType tk = TT_LPAREN\<close> pa [symmetric] y len rec]
          le2 lt show ?thesis by simp
      next
        case False
        with "1.prems" rd Ok \<open>TkType tk = TT_LPAREN\<close> pa have "p' = p2"
          by (subst (asm) parseFunc_args.simps) (auto split: result.splits if_splits)
        with le2 lt show ?thesis by simp
      qed
    next
      case False
      with "1.prems" rd Ok le1 show ?thesis
        by (subst (asm) parseFunc_args.simps) (auto split: if_splits)
    qed
  next
    case (Err e)
    with "1.prems" rd le1 show ?thesis by (subst (asm) parseFunc_args.simps) auto
  next
    case (Panic m)
    with "1.prems" rd le1 show ?thesis by (subst (asm) parseFunc_args.simps) auto
  qed
qed

lemma parseFunc_rets_pm: "parseFunc_rets p rets = (r, p') \<Longrightarrow> pm p' \<le> pm p"
proof (induction p rets arbitrary: r p' rule: parseFunc_rets.induct)
  case (1 p rets)
  obtain x p1 where rd: "Parser_read p = (x, p1)" by (cases "Parser_read p")
  note le1 = Parser_read_pm(1) [OF rd]
  show ?case
  proof (cases x)
    case (Ok tk)
    show ?thesis
    proof (cases "TkType tk = TT_RBRACKET")
      case False
      obtain y p2 where pt: "parseType (Parser_unread p1 tk) = (y, p2)"
        by (cases "parseType (Parser_unread p1 tk)")
      from parseType_after_unread(1) [OF rd [unfolded Ok] pt] have le2: "pm p2 \<le> pm p" .
      show ?thesis
      proof (cases "\<exists>ret. y = Ok ret")
        case True
        then obtain ret where y: "y = Ok ret" by auto
        with "1.prems" rd Ok False pt
        have rec: "parseFunc_rets p2 (rets @ [ret]) = (r, p')"
          by (subst (asm) parseFunc_rets.simps) auto
        from "1.IH" [OF rd [symmetric] Ok False pt [symmetric] y rec] le2 show ?thesis by simp
      next
        case ne: False
        with "1.prems" rd Ok False pt have "p' = p2"
          by (subst (asm) parseFunc_rets.simps) (auto split: result.splits)
        with le2 show ?thesis by simp
      qed
    next
      case True
      with "1.prems" rd Ok le1 show ?thesis
        by (subst (asm) parseFunc_rets.simps) auto
    qed
  next
    case (Err e)
    with "1.prems" rd le1 show ?thesis by (subst (asm) parseFunc_rets.simps) auto
  next
    case (Panic m)
    with "1.prems" rd le1 show ?thesis by (subst (asm) parseFunc_rets.simps) auto
  qed
qed

lemma parseFunc_body_pm: "parseFunc_body pf p bodies = (r, p') \<Longrightarrow> pm p' \<le> pm p"
proof (induction pf p bodies arbitrary: r p' rule: parseFunc_body.induct)
  case (1 pf p bodies)
  obtain x p1 where rd: "Parser_read p = (x, p1)" by (cases "Parser_read p")
  note le1 = Parser_read_pm(1) [OF rd]
  show ?case
  proof (cases x)
    case (Ok tk)
    show ?thesis
    proof (cases "TkType tk = TT_RCBRACKET \<or> TkType tk = TT_IF")
      case False
      then have nr: "TkType tk \<noteq> TT_RCBRACKET" and ni: "TkType tk \<noteq> TT_IF" by simp_all
      obtain y p2 where pe: "parseExp pf (Parser_unread p1 tk) = (y, p2)"
        by (cases "parseExp pf (Parser_unread p1 tk)")
      from parseExp_after_unread(1) [OF rd [unfolded Ok] pe] have le2: "pm p2 \<le> pm p" .
      show ?thesis
      proof (cases "\<exists>sexp. y = Ok sexp \<and> \<not> length bodies \<ge> 8")
        case True
        then obtain sexp where y: "y = Ok sexp" and len: "\<not> length bodies \<ge> 8" by auto
        with "1.prems" rd Ok nr ni pe
        have rec: "parseFunc_body pf p2 (bodies @ [sexp]) = (r, p')"
          by (subst (asm) parseFunc_body.simps) auto
        from "1.IH"(2) [OF rd [symmetric] Ok nr ni pe [symmetric] y len rec] le2
        show ?thesis by simp
      next
        case ne: False
        with "1.prems" rd Ok nr ni pe have "p' = p2"
          by (subst (asm) parseFunc_body.simps) (auto split: result.splits if_splits)
        with le2 show ?thesis by simp
      qed
    next
      case True
      from Parser_read_pm(2) [OF rd] Ok
      have "TkType tk = TT_IF \<Longrightarrow> pm p1 + 1 \<le> pm p" by simp
      with True "1.prems" rd Ok le1 show ?thesis
        by (subst (asm) parseFunc_body.simps) (auto simp: parseIf_def split: if_splits)
    qed
  next
    case (Err e)
    with "1.prems" rd le1 show ?thesis by (subst (asm) parseFunc_body.simps) auto
  next
    case (Panic m)
    with "1.prems" rd le1 show ?thesis by (subst (asm) parseFunc_body.simps) auto
  qed
qed

text \<open>
  \<open>parseFunc\<close>, in the order of the source: \<open>func\<close> and the name, then \<open>[\<close> and the
  arguments (\<open>parseFunc_from_args\<close>), then \<open>[\<close> and the return types
  (\<open>parseFunc_from_rets\<close>), then \<open>{\<close> and the body (\<open>parseFunc_from_body\<close>). The error of
  the \<open>read\<close> before the test for \<open>{\<close> is not tested: when the tokenizer fails there, \<open>tk\<close>
  is nil and \<open>tk.Type\<close> dereferences it.
\<close>

definition parseFunc_from_body ::
  "(string \<Rightarrow> 'f option) \<Rightarrow> Parser \<Rightarrow> Token \<Rightarrow> string \<Rightarrow> Arg list \<Rightarrow> Type list
     \<Rightarrow> 'f Node result \<times> Parser" where
  "parseFunc_from_body ParseFloat p firsttk funcname args rets =
     (case Parser_read p of
        (Err e, p1) \<Rightarrow> (Panic nil_dereference, p1)
      | (Panic m, p1) \<Rightarrow> (Panic m, p1)
      | (Ok tk, p1) \<Rightarrow>
          (if TkType tk \<noteq> TT_LCBRACKET then
             (Err (ParserError tk (''Expected `{` but got `'' @ SVal tk @ ''`.'')), p1)
           else
             (case parseFunc_body ParseFloat p1 [] of
                (Err e, p2) \<Rightarrow> (Err e, p2)
              | (Panic m, p2) \<Rightarrow> (Panic m, p2)
              | (Ok bodies, p2) \<Rightarrow>
                  (Ok (FuncN (FuncNode funcname args bodies rets (Some firsttk))), p2))))"

definition parseFunc_from_rets ::
  "(string \<Rightarrow> 'f option) \<Rightarrow> Parser \<Rightarrow> Token \<Rightarrow> string \<Rightarrow> Arg list
     \<Rightarrow> 'f Node result \<times> Parser" where
  "parseFunc_from_rets ParseFloat p firsttk funcname args =
     (case Parser_read p of
        (Err e, p1) \<Rightarrow> (Err e, p1)
      | (Panic m, p1) \<Rightarrow> (Panic m, p1)
      | (Ok tk, p1) \<Rightarrow>
          (if TkType tk \<noteq> TT_LBRACKET then
             (Err (ParserError tk (''Expected `[` but got `'' @ SVal tk @ ''`.'')), p1)
           else
             (case parseFunc_rets p1 [] of
                (Err e, p2) \<Rightarrow> (Err e, p2)
              | (Panic m, p2) \<Rightarrow> (Panic m, p2)
              | (Ok rets, p2) \<Rightarrow> parseFunc_from_body ParseFloat p2 firsttk funcname args rets)))"

definition parseFunc_from_args ::
  "(string \<Rightarrow> 'f option) \<Rightarrow> Parser \<Rightarrow> Token \<Rightarrow> string \<Rightarrow> 'f Node result \<times> Parser" where
  "parseFunc_from_args ParseFloat p firsttk funcname =
     (case Parser_read p of
        (Err e, p1) \<Rightarrow> (Err e, p1)
      | (Panic m, p1) \<Rightarrow> (Panic m, p1)
      | (Ok tk, p1) \<Rightarrow>
          (if TkType tk \<noteq> TT_LBRACKET then
             (Err (ParserError tk (''Expected `[` but got `'' @ SVal tk @ ''`.'')), p1)
           else
             (case parseFunc_args p1 [] of
                (Err e, p2) \<Rightarrow> (Err e, p2)
              | (Panic m, p2) \<Rightarrow> (Panic m, p2)
              | (Ok args, p2) \<Rightarrow> parseFunc_from_rets ParseFloat p2 firsttk funcname args)))"

definition parseFunc :: "(string \<Rightarrow> 'f option) \<Rightarrow> Parser \<Rightarrow> 'f Node result \<times> Parser" where
  "parseFunc ParseFloat p =
     (case Parser_read p of
        (Err e, p1) \<Rightarrow> (Err e, p1)
      | (Panic m, p1) \<Rightarrow> (Panic m, p1)
      | (Ok firsttk, p1) \<Rightarrow>
          (if TkType firsttk \<noteq> TT_FUNC then
             (Err (ParserError firsttk (''Expected `func` but got `'' @ SVal firsttk @ ''`.'')), p1)
           else
             (case Parser_read p1 of
                (Err e, p2) \<Rightarrow> (Err e, p2)
              | (Panic m, p2) \<Rightarrow> (Panic m, p2)
              | (Ok tk, p2) \<Rightarrow>
                  (if TkType tk \<noteq> TT_IDENT then
                     (Err (ParserError tk
                        (''Expected identifier but got `'' @ SVal tk @ ''`.'')), p2)
                   else if CHR '':'' \<in> set (SVal tk) then
                     (Err (ParserError tk
                        (''`:` is not allowed in identifiers in this context. ''
                           @ ''Offending identifier is `'' @ SVal tk @ ''`.'')), p2)
                   else parseFunc_from_args ParseFloat p2 firsttk (SVal tk)))))"

lemma parseFunc_from_body_pm:
  "parseFunc_from_body pf p firsttk funcname args rets = (r, p') \<Longrightarrow> pm p' \<le> pm p"
proof -
  assume a: "parseFunc_from_body pf p firsttk funcname args rets = (r, p')"
  obtain x p1 where rd: "Parser_read p = (x, p1)" by (cases "Parser_read p")
  obtain y p2 where lp: "parseFunc_body pf p1 [] = (y, p2)" by (cases "parseFunc_body pf p1 []")
  from a rd lp Parser_read_pm(1) [OF rd] parseFunc_body_pm [OF lp] show ?thesis
    by (auto simp: parseFunc_from_body_def split: result.splits if_splits)
qed

lemma parseFunc_from_rets_pm:
  "parseFunc_from_rets pf p firsttk funcname args = (r, p') \<Longrightarrow> pm p' \<le> pm p"
proof -
  assume a: "parseFunc_from_rets pf p firsttk funcname args = (r, p')"
  obtain x p1 where rd: "Parser_read p = (x, p1)" by (cases "Parser_read p")
  obtain y p2 where lp: "parseFunc_rets p1 [] = (y, p2)" by (cases "parseFunc_rets p1 []")
  from a rd lp Parser_read_pm(1) [OF rd] parseFunc_rets_pm [OF lp] show ?thesis
    by (auto simp: parseFunc_from_rets_def split: result.splits if_splits
             dest!: parseFunc_from_body_pm)
qed

lemma parseFunc_from_args_pm:
  "parseFunc_from_args pf p firsttk funcname = (r, p') \<Longrightarrow> pm p' \<le> pm p"
proof -
  assume a: "parseFunc_from_args pf p firsttk funcname = (r, p')"
  obtain x p1 where rd: "Parser_read p = (x, p1)" by (cases "Parser_read p")
  obtain y p2 where lp: "parseFunc_args p1 [] = (y, p2)" by (cases "parseFunc_args p1 []")
  from a rd lp Parser_read_pm(1) [OF rd] parseFunc_args_pm [OF lp] show ?thesis
    by (auto simp: parseFunc_from_args_def split: result.splits if_splits
             dest!: parseFunc_from_rets_pm)
qed

lemma parseFunc_pm:
  assumes "parseFunc pf p = (r, p')"
  shows "pm p' \<le> pm p" and "\<And>v. r = Ok v \<Longrightarrow> pm p' < pm p"
proof -
  obtain x p1 where r1: "Parser_read p = (x, p1)" by (cases "Parser_read p")
  obtain y p2 where r2: "Parser_read p1 = (y, p2)" by (cases "Parser_read p1")
  note le = Parser_read_pm(1) [OF r1] Parser_read_pm(1) [OF r2]
  from assms r1 r2 le show "pm p' \<le> pm p"
    by (auto simp: parseFunc_def split: result.splits if_splits dest!: parseFunc_from_args_pm)
  fix v assume ok: "r = Ok v"
  with assms r1 obtain tk where "x = Ok tk" "TkType tk = TT_FUNC"
    by (auto simp: parseFunc_def split: result.splits if_splits)
  with Parser_read_pm(2) [OF r1] have "pm p1 < pm p" by simp
  with assms r1 r2 le show "pm p' < pm p"
    by (auto simp: parseFunc_def split: result.splits if_splits dest!: parseFunc_from_args_pm)
qed

text \<open>
  \<open>parseFuncs\<close> (\<open>Funcs\<close>). A token that is not \<open>EOF\<close> must be \<open>(\<close>, and is put back for
  \<open>parseFunc\<close>. \<open>funcs\<close> is a slice of length 8 that is never resized.
\<close>

function parseFuncs_loop ::
  "(string \<Rightarrow> 'f option) \<Rightarrow> Parser \<Rightarrow> 'f FuncNode list \<Rightarrow> 'f FuncNode list result \<times> Parser"
where
  "parseFuncs_loop ParseFloat p funcs =
     (case Parser_read p of
        (Err e, p1) \<Rightarrow> (Err e, p1)
      | (Panic m, p1) \<Rightarrow> (Panic m, p1)
      | (Ok tk, p1) \<Rightarrow>
          (if TkType tk = TT_EOF then (Ok funcs, p1)
           else if TkType tk \<noteq> TT_LPAREN then
             (Err (ParserError tk (''Expected `(` but got `'' @ SVal tk @ ''`.'')), p1)
           else
             (case parseFunc ParseFloat (Parser_unread p1 tk) of
                (Err e, p2) \<Rightarrow> (Err e, p2)
              | (Panic m, p2) \<Rightarrow> (Panic m, p2)
              | (Ok fn, p2) \<Rightarrow>
                  (case fn of
                     FuncN fn' \<Rightarrow>
                       (if length funcs \<ge> 8 then (Panic index_out_of_range, p2)
                        else parseFuncs_loop ParseFloat p2 (funcs @ [fn']))
                   | _ \<Rightarrow> (Panic ''BUG: didn't get *FuncNode'', p2)))))"
  by pat_completeness auto
termination
proof (relation "measure (\<lambda>(pf, p, funcs). pm p)")
  show "wf (measure (\<lambda>(pf, p, funcs). pm p))" by simp
next
  fix pf :: "string \<Rightarrow> 'f option" and p and funcs :: "'f FuncNode list" and x p1 tk y p2
    and fn :: "'f Node" and fn' :: "'f FuncNode"
  assume a: "(x, p1) = Parser_read p" "x = Ok tk" "TkType tk \<noteq> TT_EOF"
    and b: "(y, p2) = parseFunc pf (Parser_unread p1 tk)" "y = Ok fn"
  from Parser_read_pm(2) [OF a(1) [symmetric]] a have "pm p1 + 1 \<le> pm p" by auto
  moreover from parseFunc_pm(2) [OF b(1) [symmetric]] b have "pm p2 < pm p1 + 1" by simp
  ultimately show "((pf, p2, funcs @ [fn']), (pf, p, funcs)) \<in> measure (\<lambda>(pf, p, funcs). pm p)"
    by simp
qed

declare parseFuncs_loop.simps [simp del]

definition parseFuncs ::
  "(string \<Rightarrow> 'f option) \<Rightarrow> Parser \<Rightarrow> 'f FuncNode list result \<times> Parser" where
  "parseFuncs ParseFloat p = parseFuncs_loop ParseFloat p []"

definition Funcs ::
  "(string \<Rightarrow> 'f option) \<Rightarrow> Parser \<Rightarrow> 'f FuncNode list result \<times> Parser" where
  "Funcs ParseFloat p = parseFuncs ParseFloat p"

section \<open>Type worlds and inference\<close>

type_synonym TypeWorld = "string \<rightharpoonup> Type"

type_synonym TypeWorlds = "TypeWorld list"

text \<open>
  \<open>Lookup\<close> scans the worlds from the last one to the first; an entry that holds nil counts
  as absent, and the result is nil (\<open>InvalidType\<close>) when no world has the name.
  \<open>Lookup_from\<close> takes the worlds in the order of the scan.
\<close>

fun Lookup_from :: "TypeWorlds \<Rightarrow> string \<Rightarrow> Type" where
  "Lookup_from [] val = InvalidType"
| "Lookup_from (tw # tws) val =
     (case tw val of
        None \<Rightarrow> Lookup_from tws val
      | Some it \<Rightarrow> if it \<noteq> InvalidType then it else Lookup_from tws val)"

definition Lookup :: "TypeWorlds \<Rightarrow> string \<Rightarrow> Type" where
  "Lookup tws val = Lookup_from (rev tws) val"

definition NewTypeWorlds :: "TypeWorld list \<Rightarrow> TypeWorlds" where
  "NewTypeWorlds typeWorlds = typeWorlds"

definition builtins :: TypeWorld where
  "builtins = [''square.i'' \<mapsto> FuncT (FuncType [PrimType ''int''] [PrimType ''int''])]"

text \<open>
  The loop of \<open>InferTypes\<close> that compares the top \<open>m\<close> entries of the stack with the
  argument types: \<open>InferTypes_args stack argTypes tk verb i\<close> runs it from index \<open>i\<close>.
  An index outside the stack is a panic of the run-time (the caller has tested the length).
\<close>

function InferTypes_args ::
  "Type list \<Rightarrow> Type list \<Rightarrow> Token option \<Rightarrow> string \<Rightarrow> nat \<Rightarrow> unit result" where
  "InferTypes_args stack argTypes tk verb i =
     (if i < length argTypes then
        (if length stack < length argTypes then Panic index_out_of_range
         else
           (case TypeCompatibleWith (stack ! (length stack - length argTypes + i)) (argTypes ! i) of
              Err e \<Rightarrow> Err e
            | Panic m \<Rightarrow> Panic m
            | Ok ok \<Rightarrow>
                (if \<not> ok then
                   Err (TypeError (argTypes ! i) (stack ! (length stack - length argTypes + i)) tk
                          (''in a call to `'' @ verb @ ''`.''))
                 else InferTypes_args stack argTypes tk verb (i + 1))))
      else Ok ())"
  by pat_completeness auto
termination
  by (relation "measure (\<lambda>(stack, argTypes, tk, verb, i). length argTypes - i)") auto

declare InferTypes_args.simps [simp del]

text \<open>The case of a \<open>VerbNode\<close>: the stack after the call, or the error.\<close>

definition InferTypes_verb ::
  "TypeWorlds \<Rightarrow> Token option \<Rightarrow> string \<Rightarrow> Type list \<Rightarrow> Type list result" where
  "InferTypes_verb typeWorlds tk verb stack =
     (case Lookup typeWorlds verb of
        InvalidType \<Rightarrow> Err (Errorf (''Function `'' @ verb @ ''` does not exist!''))
      | FuncT funcType \<Rightarrow>
          (if length stack < length (ArgTypes funcType) then Err (Errorf ''Not enough arguments.'')
           else
             (case InferTypes_args stack (ArgTypes funcType) tk verb 0 of
                Err e \<Rightarrow> Err e
              | Panic m \<Rightarrow> Panic m
              | Ok u \<Rightarrow>
                  Ok (take (length stack - length (ArgTypes funcType)) stack @ RetTypes funcType)))
      | _ \<Rightarrow> Err (Errorf (''`'' @ verb @ ''` is not of type function.'')))"

text \<open>
  The loop over the items of an \<open>ExpNode\<close>. The switch on an item has the cases
  \<open>*LitIntNode\<close>, \<open>*LitFloatNode\<close> and \<open>*VerbNode\<close> and no default.
\<close>

fun InferTypes_exps ::
  "TypeWorlds \<Rightarrow> Token option \<Rightarrow> 'f Node list \<Rightarrow> Type list \<Rightarrow> Type list result" where
  "InferTypes_exps typeWorlds tk [] stack = Ok stack"
| "InferTypes_exps typeWorlds tk (v # vs) stack =
     (case v of
        LitIntNode iv t \<Rightarrow> InferTypes_exps typeWorlds tk vs (stack @ [PrimType ''int''])
      | LitFloatNode fv t \<Rightarrow> InferTypes_exps typeWorlds tk vs (stack @ [PrimType ''float''])
      | VerbNode verb t \<Rightarrow>
          (case InferTypes_verb typeWorlds tk verb stack of
             Err e \<Rightarrow> Err e
           | Panic m \<Rightarrow> Panic m
           | Ok stack' \<Rightarrow> InferTypes_exps typeWorlds tk vs stack')
      | _ \<Rightarrow> InferTypes_exps typeWorlds tk vs stack)"

definition InferTypes :: "'f Node \<Rightarrow> Type list \<Rightarrow> TypeWorlds \<Rightarrow> Type list result" where
  "InferTypes node stack typeWorlds =
     (case node of
        LitFloatNode fv t \<Rightarrow> Ok (stack @ [PrimType ''float''])
      | LitIntNode iv t \<Rightarrow> Ok (stack @ [PrimType ''int''])
      | ExpNode exps tk \<Rightarrow> InferTypes_exps typeWorlds tk exps stack
      | _ \<Rightarrow> Err (Errorf ''Can't infer types.''))"

text \<open>
  What the tests of \<open>InferTypes\<close> run on a source text: parse it as an expression, then
  infer from a nil stack in the world of the builtins.
\<close>

definition InferTypes_source :: "(string \<Rightarrow> 'f option) \<Rightarrow> string \<Rightarrow> Type list result" where
  "InferTypes_source ParseFloat code =
     (case fst (parseExp ParseFloat (NewParser (NewTokenizerString code))) of
        Err e \<Rightarrow> Err e
      | Panic m \<Rightarrow> Panic m
      | Ok n \<Rightarrow> InferTypes n [] (NewTypeWorlds [builtins]))"

section \<open>Modules and the checker\<close>

text \<open>
  A map of Go is ranged over in an order the language leaves open: the maps of the checker
  are given as the lists of their entries in the order of the iteration.
\<close>

record 'f Func =
  Func_Type :: FuncType
  Func_Name :: string
  Func_FuncNode :: "'f FuncNode"

record 'f Module =
  Module_Name :: string
  Module_Path :: string
  Module_Funcs :: "(string \<times> 'f Func) list"

definition mkFuncType :: "'f FuncNode \<Rightarrow> FuncType" where
  "mkFuncType fn = FuncType (map Arg_Type (Args fn)) (FuncNode_RetTypes fn)"

definition mkFunc :: "'f FuncNode \<Rightarrow> 'f Func" where
  "mkFunc fn = \<lparr>Func_Type = mkFuncType fn, Func_Name = Name fn, Func_FuncNode = fn\<rparr>"

text \<open>The first loop of \<open>TypeCheck\<close>: the world of the fully qualified names.\<close>

fun TypeCheck_world_funcs :: "string \<Rightarrow> (string \<times> 'f Func) list \<Rightarrow> TypeWorld \<Rightarrow> TypeWorld" where
  "TypeCheck_world_funcs mname [] modulesTypeWorld = modulesTypeWorld"
| "TypeCheck_world_funcs mname ((k, fn) # funcs) modulesTypeWorld =
     TypeCheck_world_funcs mname funcs
       (modulesTypeWorld(mname @ '':'' @ Func_Name fn \<mapsto> FuncT (Func_Type fn)))"

fun TypeCheck_world :: "(string \<times> 'f Module) list \<Rightarrow> TypeWorld \<Rightarrow> TypeWorld result" where
  "TypeCheck_world [] modulesTypeWorld = Ok modulesTypeWorld"
| "TypeCheck_world ((k, v) # modules) modulesTypeWorld =
     (if k \<noteq> Module_Name v then Panic ''BUG: names don't match?''
      else TypeCheck_world modules
             (TypeCheck_world_funcs (Module_Name v) (Module_Funcs v) modulesTypeWorld))"

text \<open>The loop over the body of a function, which threads the stack.\<close>

fun TypeCheck_body :: "TypeWorlds \<Rightarrow> 'f Node list \<Rightarrow> Type list \<Rightarrow> Type list result" where
  "TypeCheck_body typeWorlds [] types = Ok types"
| "TypeCheck_body typeWorlds (node # body) types =
     (case InferTypes node types typeWorlds of
        Err e \<Rightarrow> Err e
      | Panic m \<Rightarrow> Panic m
      | Ok types' \<Rightarrow> TypeCheck_body typeWorlds body types')"

text \<open>The loop over the returned types, from index \<open>i\<close>.\<close>

function TypeCheck_rets :: "'f Func \<Rightarrow> Type list \<Rightarrow> nat \<Rightarrow> unit result" where
  "TypeCheck_rets fn types i =
     (if i < length types then
        (if length (RetTypes (Func_Type fn)) \<le> i then Panic index_out_of_range
         else
           (case TypeCompatibleWith (types ! i) (RetTypes (Func_Type fn) ! i) of
              Err e \<Rightarrow> Err e
            | Panic m \<Rightarrow> Panic m
            | Ok ok \<Rightarrow>
                (if \<not> ok then
                   Err (TypeError (RetTypes (Func_Type fn) ! i) (types ! i)
                          (FuncNode_Token (Func_FuncNode fn))
                          (''(in returned values of function `'' @ Func_Name fn @ ''`)''))
                 else TypeCheck_rets fn types (i + 1))))
      else Ok ())"
  by pat_completeness auto
termination
  by (relation "measure (\<lambda>(fn, types, i). length types - i)") auto

declare TypeCheck_rets.simps [simp del]

text \<open>The body of the loop over the functions of a module: one function is checked.\<close>

definition TypeCheck_func :: "TypeWorlds \<Rightarrow> 'f Func \<Rightarrow> unit result" where
  "TypeCheck_func typeWorlds fn =
     (case TypeCheck_body typeWorlds (Body (Func_FuncNode fn)) [] of
        Err e \<Rightarrow> Err e
      | Panic m \<Rightarrow> Panic m
      | Ok types \<Rightarrow>
          (if length types \<noteq> length (RetTypes (Func_Type fn)) then
             Err (Errorf (''Function `'' @ Func_Name fn
                    @ ''` does not return the right amount of values. Wanted ''
                    @ decimal (length (RetTypes (Func_Type fn))) @ '' but got ''
                    @ decimal (length types) @ ''.''))
           else TypeCheck_rets fn types 0))"

fun TypeCheck_funcs :: "TypeWorlds \<Rightarrow> (string \<times> 'f Func) list \<Rightarrow> unit result" where
  "TypeCheck_funcs typeWorlds [] = Ok ()"
| "TypeCheck_funcs typeWorlds ((k, fn) # funcs) =
     (case TypeCheck_func typeWorlds fn of
        Err e \<Rightarrow> Err e
      | Panic m \<Rightarrow> Panic m
      | Ok u \<Rightarrow> TypeCheck_funcs typeWorlds funcs)"

fun TypeCheck_modules :: "TypeWorlds \<Rightarrow> (string \<times> 'f Module) list \<Rightarrow> unit result" where
  "TypeCheck_modules typeWorlds [] = Ok ()"
| "TypeCheck_modules typeWorlds ((k, v) # modules) =
     (if k \<noteq> Module_Name v then Panic ''BUG: names don't match?''
      else
        (case TypeCheck_funcs typeWorlds (Module_Funcs v) of
           Err e \<Rightarrow> Err e
         | Panic m \<Rightarrow> Panic m
         | Ok u \<Rightarrow> TypeCheck_modules typeWorlds modules))"

text \<open>\<open>TypeCheck\<close>: \<open>Ok ()\<close> is the nil error.\<close>

definition TypeCheck :: "(string \<times> 'f Module) list \<Rightarrow> unit result" where
  "TypeCheck modules =
     (case TypeCheck_world modules Map.empty of
        Err e \<Rightarrow> Err e
      | Panic m \<Rightarrow> Panic m
      | Ok modulesTypeWorld \<Rightarrow>
          TypeCheck_modules (NewTypeWorlds [builtins, modulesTypeWorld]) modules)"

section \<open>Predicates of the properties\<close>

text \<open>
  The types built from \<open>Void\<close>, \<open>Prim\<close> and \<open>Union\<close> only: no nil and no function type, at
  any depth.
\<close>

fun plain_type :: "Type \<Rightarrow> bool" where
  "plain_type VoidType = True"
| "plain_type (PrimType x) = True"
| "plain_type (UnionType ts) = list_all plain_type ts"
| "plain_type t = False"

text \<open>The items of an expression that the inference has a case for.\<close>

definition literal_or_verb :: "'f Node \<Rightarrow> bool" where
  "literal_or_verb v =
     (case v of
        LitIntNode iv t \<Rightarrow> True
      | LitFloatNode fv t \<Rightarrow> True
      | VerbNode verb t \<Rightarrow> True
      | _ \<Rightarrow> False)"

text \<open>
  A module \<open>m\<close> with the one function \<open>f\<close>, which has the given arguments, return types and
  body.
\<close>

definition module_of ::
  "Arg list \<Rightarrow> Type list \<Rightarrow> 'f Node list \<Rightarrow> (string \<times> 'f Module) list" where
  "module_of args rets body =
     [(''m'', \<lparr>Module_Name = ''m'', Module_Path = ''m'',
         Module_Funcs = [(''f'', mkFunc (FuncNode ''f'' args body rets None))]\<rparr>)]"

section \<open>The checker in the words of the specification\<close>

text \<open>
  Function checking in the words of the specification. The stack starts empty and is
  threaded through the body nodes in order (\<open>thread_stack_spec\<close>). After the body the length
  of the stack must be the number of declared return types, otherwise the arity error is
  reported; then the first index whose stack entry is not compatible with the declared
  return type gives the type error (\<open>returns_spec\<close>, \<open>check_function_spec\<close>). The checker
  reports the first failure among the functions, in the order of the iteration
  (\<open>TypeCheck_spec\<close>).
\<close>

definition thread_stack_spec :: "TypeWorlds \<Rightarrow> 'f Node list \<Rightarrow> Type list result" where
  "thread_stack_spec tws body =
     foldl (\<lambda>r node. case r of Ok S \<Rightarrow> InferTypes node S tws | Err e \<Rightarrow> Err e | Panic m \<Rightarrow> Panic m)
       (Ok []) body"

definition returns_spec :: "'f Func \<Rightarrow> Type list \<Rightarrow> unit result" where
  "returns_spec fn S =
     (case find (\<lambda>i. TypeCompatibleWith (S ! i) (RetTypes (Func_Type fn) ! i) \<noteq> Ok True)
             [0..<length S] of
        None \<Rightarrow> Ok ()
      | Some i \<Rightarrow>
          (case TypeCompatibleWith (S ! i) (RetTypes (Func_Type fn) ! i) of
             Ok b \<Rightarrow>
               Err (TypeError (RetTypes (Func_Type fn) ! i) (S ! i)
                      (FuncNode_Token (Func_FuncNode fn))
                      (''(in returned values of function `'' @ Func_Name fn @ ''`)''))
           | Err e \<Rightarrow> Err e
           | Panic m \<Rightarrow> Panic m))"

definition check_function_spec :: "TypeWorlds \<Rightarrow> 'f Func \<Rightarrow> unit result" where
  "check_function_spec tws fn =
     (case thread_stack_spec tws (Body (Func_FuncNode fn)) of
        Err e \<Rightarrow> Err e
      | Panic m \<Rightarrow> Panic m
      | Ok S \<Rightarrow>
          (if length S \<noteq> length (RetTypes (Func_Type fn)) then
             Err (Errorf (''Function `'' @ Func_Name fn
                    @ ''` does not return the right amount of values. Wanted ''
                    @ decimal (length (RetTypes (Func_Type fn))) @ '' but got ''
                    @ decimal (length S) @ ''.''))
           else returns_spec fn S))"

definition first_failure_spec :: "unit result list \<Rightarrow> unit result" where
  "first_failure_spec rs = (case find (\<lambda>r. r \<noteq> Ok ()) rs of None \<Rightarrow> Ok () | Some r \<Rightarrow> r)"

definition TypeCheck_spec :: "TypeWorlds \<Rightarrow> (string \<times> 'f Module) list \<Rightarrow> unit result" where
  "TypeCheck_spec tws modules =
     first_failure_spec
       (map (check_function_spec tws) (concat (map (\<lambda>(k, v). map snd (Module_Funcs v)) modules)))"

definition names_match :: "(string \<times> 'f Module) list \<Rightarrow> bool" where
  "names_match modules = list_all (\<lambda>(k, v). k = Module_Name v) modules"

section \<open>Evaluating the model on source texts\<close>

text \<open>
  The equations that the simplifier unfolds to run the tokenizer, the parser, the inference
  and the checker on a concrete input.
\<close>

lemmas tokenizer_eval = NewTokenizerString_def NewTokenizerRunes_def Next_def Next_skip.simps
  read_def unread_def eof_def isdigit_def isletter_def isident_def iswhitespace_def
  litintfloat_def litintfloat_loop.simps ident_def ident_loop.simps single_def filepos_def
  WriteRune_def decimal.simps char_of_def bit_Suc_0_iff

lemmas parser_eval = NewParser_def readbuf_def Parser_read_def Parser_unread_def parseData_def
  parseType.simps parseType_union.simps parseArg_def parseExp_def parseExp_loop.simps
  first_token_def strconv_ParseInt_def NewUnionType_def sort_Slice_def less_Type_def
  TypeEqual_def Errorf_Error_def VoidArg_def parseIf_def
  parseFunc_args.simps parseFunc_rets.simps parseFunc_body.simps parseFunc_from_body_def
  parseFunc_from_rets_def parseFunc_from_args_def parseFunc_def parseFuncs_loop.simps
  parseFuncs_def Funcs_def

lemmas infer_eval = InferTypes_source_def InferTypes_def InferTypes_verb_def
  InferTypes_args.simps Lookup_def NewTypeWorlds_def builtins_def TypeEqual_def

lemmas check_eval = TypeCheck_def TypeCheck_func_def TypeCheck_rets.simps mkFunc_def
  mkFuncType_def

section \<open>The order on types and compatibility\<close>

text \<open>
  Claim C2: \<open>TypeCmp\<close> is a total order in which a union with fewer members comes strictly
  before a union with more members, and it returns 0 only for structurally equal types.
  The code compares the length of the first union with itself, so the count never puts the
  smaller union first: the empty union compares equal to \<open>{int}\<close>, although the two differ,
  while \<open>{int}\<close> compares after the empty union, so the two results do not have opposite
  signs.
\<close>

theorem TypeCmp_ignores_fewer_members:
  "TypeCmp (UnionType []) (UnionType [PrimType ''int'']) = Ok 0
   \<and> TypeCmp (UnionType [PrimType ''int'']) (UnionType []) = Ok 1
   \<and> UnionType [] \<noteq> UnionType [PrimType ''int'']"
  by simp

lemma strings_Compare_refl: "strings_Compare s s = 0"
  by (induction s) auto

lemma TypeCmp_loop_refl:
  "(\<And>x. x \<in> set ts \<Longrightarrow> TypeCmp x x = Ok 0) \<Longrightarrow> TypeCmp_loop ts ts = Ok 0"
  by (induction ts) auto

lemma TypeCmp_refl: "plain_type t \<Longrightarrow> TypeCmp t t = Ok 0"
proof (induction t rule: plain_type.induct)
  case (3 ts)
  have "TypeCmp_loop ts ts = Ok 0"
  proof (rule TypeCmp_loop_refl)
    fix x assume "x \<in> set ts"
    with 3 show "TypeCmp x x = Ok 0" by (auto simp: list_all_iff)
  qed
  then show ?case by simp
qed (auto simp: strings_Compare_refl)

text \<open>On plain types the comparison returns: it does not panic.\<close>

lemma TypeCmp_returns:
  "plain_type t1 \<Longrightarrow> plain_type t2 \<Longrightarrow> \<exists>c. TypeCmp t1 t2 = Ok c"
  "list_all plain_type ts1 \<Longrightarrow> list_all plain_type ts2 \<Longrightarrow> length ts1 \<le> length ts2
     \<Longrightarrow> \<exists>c. TypeCmp_loop ts1 ts2 = Ok c"
proof (induction t1 t2 and ts1 ts2 rule: TypeCmp_TypeCmp_loop.induct)
qed (auto split: result.splits)

lemma TypeCompatibleWith_found_member:
  "list_all plain_type ts \<Longrightarrow> plain_type a \<Longrightarrow> a \<in> set ts
     \<Longrightarrow> TypeCompatibleWith_found a ts = Ok True"
proof (induction ts)
  case Nil
  then show ?case by simp
next
  case (Cons b rest)
  show ?case
  proof (cases "a = b")
    case True
    with Cons.prems show ?thesis by (simp add: TypeEqual_def TypeCmp_refl)
  next
    case False
    from Cons.prems obtain c where "TypeCmp a b = Ok c"
      using TypeCmp_returns(1) [of a b] by auto
    with False Cons show ?thesis by (simp add: TypeEqual_def)
  qed
qed

lemma TypeCompatibleWith_all_subset:
  "list_all plain_type ts_a \<Longrightarrow> list_all plain_type ts_b \<Longrightarrow> set ts_a \<subseteq> set ts_b
     \<Longrightarrow> TypeCompatibleWith_all ts_a ts_b = Ok True"
  by (induction ts_a) (auto simp: TypeCompatibleWith_found_member)

text \<open>
  Claim C7, as the code has it: \<open>TypeCompatibleWith(t, t)\<close> returns true for every type
  \<open>t\<close> built from \<open>Void\<close>, \<open>Prim\<close> and \<open>Union\<close> only (a union need not be canonical).
\<close>

theorem TypeCompatibleWith_refl: "plain_type t \<Longrightarrow> TypeCompatibleWith t t = Ok True"
  by (cases t)
    (auto simp: TypeEqual_def strings_Compare_refl TypeCompatibleWith_all_subset)

theorem TypeCompatibleWith_refl_witness:
  "plain_type (UnionType [PrimType ''float'', PrimType ''int''])
   \<and> TypeCompatibleWith (UnionType [PrimType ''float'', PrimType ''int''])
       (UnionType [PrimType ''float'', PrimType ''int'']) = Ok True"
  using TypeCompatibleWith_refl [of "UnionType [PrimType ''float'', PrimType ''int'']"]
  by simp

text \<open>
  Claim C7 as stated includes the function types: on the type of the builtin \<open>square.i\<close>,
  \<open>TypeCompatibleWith\<close> does not return true, it reaches its final panic.
\<close>

theorem TypeCompatibleWith_FuncType_panics:
  "builtins ''square.i'' = Some (FuncT (FuncType [PrimType ''int''] [PrimType ''int'']))
   \<and> TypeCompatibleWith (FuncT (FuncType [PrimType ''int''] [PrimType ''int'']))
       (FuncT (FuncType [PrimType ''int''] [PrimType ''int'']))
     = Panic ''BUG: Can't tell if compatible or not?''"
  by (simp add: builtins_def)

section \<open>The tokenizer on numeric literals\<close>

text \<open>Scenario S2: \<open>-399\<close> is one \<open>LITINT\<close> with the lexeme \<open>-399\<close>, then \<open>EOF\<close>.\<close>

lemma tokenize_minus_399:
  "Next (NewTokenizerString ''-399'') =
     (Ok \<lparr>SVal = ''-399'', TkType = TT_LITINT,
        Pos = \<lparr>LineNumber = 1, CharNumber = 5, FilePath = ''<memory>''\<rparr>\<rparr>,
      \<lparr>t_r = [], t_fpath = ''<memory>'', t_lineno = 1, t_charno = 5, t_rn = eof\<rparr>)
   \<and> fst (Next (snd (Next (NewTokenizerString ''-399'')))) =
     Ok \<lparr>SVal = ''<eof>'', TkType = TT_EOF,
        Pos = \<lparr>LineNumber = 1, CharNumber = 5, FilePath = ''<memory>''\<rparr>\<rparr>"
  by (simp add: tokenizer_eval)

text \<open>A \<open>-\<close> alone is an error of the tokenizer.\<close>

lemma tokenize_bare_minus:
  "fst (Next (NewTokenizerString ''-'')) =
     Err (TokenizerError \<lparr>LineNumber = 1, CharNumber = 2, FilePath = ''<memory>''\<rparr>
       (Some (Errorf (''Literal '' @ [CHR 0x22] @ ''-'' @ [CHR 0x22]
          @ '' is missing at least one digit.''))))"
  by (simp add: tokenizer_eval)

text \<open>
  Claim C8: a \<open>-\<close> with no digit after it is an error, so the lexeme of every \<open>LITINT\<close> or
  \<open>LITFLOAT\<close> token has a digit. The test of the code is \<open>str == "-"\<close> only: on the input
  \<open>-.\<close> the tokenizer returns a \<open>LITFLOAT\<close> token whose lexeme \<open>-.\<close> has no digit.
\<close>

theorem tokenize_minus_dot_has_no_digit:
  "fst (Next (NewTokenizerString ''-.'')) =
     Ok \<lparr>SVal = ''-.'', TkType = TT_LITFLOAT,
        Pos = \<lparr>LineNumber = 1, CharNumber = 3, FilePath = ''<memory>''\<rparr>\<rparr>
   \<and> \<not> list_ex (\<lambda>c. isdigit (of_char c)) ''-.''"
  by (simp add: tokenizer_eval)

section \<open>The entry points of the parser\<close>

text \<open>
  With an empty token buffer, \<open>parseFunc\<close> reads back the \<open>(\<close> that \<open>parseFuncs\<close> has
  required and put back, and rejects it: \<open>parseFuncs\<close> never returns a function.
\<close>

lemma parseFunc_after_LPAREN:
  assumes "p_tkbuf p1 = []" and "TkType tk = TT_LPAREN"
  shows "\<exists>e. fst (parseFunc pf (Parser_unread p1 tk)) = Err e"
proof -
  from assms(1) have "Parser_read (Parser_unread p1 tk) = (Ok tk, p1)"
    by (simp add: Parser_read_def readbuf_def Parser_unread_def)
  with assms(2) show ?thesis by (simp add: parseFunc_def)
qed

lemma Parser_read_tkbuf: "p_tkbuf p = [] \<Longrightarrow> Parser_read p = (r, p1) \<Longrightarrow> p_tkbuf p1 = []"
  by (auto simp: Parser_read_def readbuf_def split: prod.splits result.splits)

lemma parseFuncs_returns_no_function:
  assumes "p_tkbuf p = []" and "fst (parseFuncs pf p) = Ok funcs"
  shows "funcs = []"
proof -
  obtain x p1 where rd: "Parser_read p = (x, p1)" by (cases "Parser_read p")
  note buf = Parser_read_tkbuf [OF assms(1) rd]
  show ?thesis
  proof (cases x)
    case (Ok tk)
    show ?thesis
    proof (cases "TkType tk = TT_LPAREN")
      case True
      from parseFunc_after_LPAREN [OF buf True, of pf]
      obtain e where "fst (parseFunc pf (Parser_unread p1 tk)) = Err e" by blast
      with assms(2) rd Ok True show ?thesis
        by (simp add: parseFuncs_def parseFuncs_loop.simps split: prod.splits)
    next
      case False
      with assms(2) rd Ok show ?thesis
        by (simp add: parseFuncs_def parseFuncs_loop.simps split: if_splits)
    qed
  next
    case (Err e)
    with assms(2) rd show ?thesis by (simp add: parseFuncs_def parseFuncs_loop.simps)
  next
    case (Panic m)
    with assms(2) rd show ?thesis by (simp add: parseFuncs_def parseFuncs_loop.simps)
  qed
qed

text \<open>
  Claim C1: \<open>parseFuncs\<close> (the entry point \<open>Funcs\<close>) parses a file of \<open>func\<close> definitions;
  a file with one well-formed definition parses. On the definition of scenario S6
  \<open>parseFunc\<close> returns the function node, and \<open>Funcs\<close> returns the error that it expected
  \<open>(\<close>: the loop of \<open>parseFuncs\<close> accepts \<open>(\<close> only, where \<open>parseFunc\<close> wants \<open>func\<close>.
\<close>

theorem Funcs_rejects_func_definition:
  "fst (parseFunc pf (NewParser (NewTokenizerString ''func main [(a int)] [float] {}''))) =
     Ok (FuncN (FuncNode ''main'' [\<lparr>Arg_Name = ''a'', Arg_Type = PrimType ''int''\<rparr>] []
       [PrimType ''float'']
       (Some \<lparr>SVal = ''func'', TkType = TT_FUNC,
          Pos = \<lparr>LineNumber = 1, CharNumber = 6, FilePath = ''<memory>''\<rparr>\<rparr>)))
   \<and> fst (Funcs pf (NewParser (NewTokenizerString ''func main [(a int)] [float] {}''))) =
     Err (ParserError
       \<lparr>SVal = ''func'', TkType = TT_FUNC,
          Pos = \<lparr>LineNumber = 1, CharNumber = 6, FilePath = ''<memory>''\<rparr>\<rparr>
       ''Expected `(` but got `func`.'')"
  by (simp add: tokenizer_eval parser_eval)

text \<open>
  Claim C3: no entry point of the parser panics on a source text. After the quotation
  token \<open>'\<close>, and where the \<open>{\<close> of a body is expected, the parser uses the token of a
  \<open>read\<close> without testing its error: the rune \<open>$\<close> makes the tokenizer fail there, and
  \<open>parseData\<close>, \<open>parseExp\<close> and \<open>parseFunc\<close> dereference the nil token.
\<close>

theorem parser_panics_on_tokenizer_error:
  "fst (parseData pf (NewParser (NewTokenizerString [CHR 0x27, CHR ''$'']))) =
     Panic nil_dereference
   \<and> fst (parseExp pf (NewParser (NewTokenizerString [CHR 0x27, CHR ''$'']))) =
     Panic nil_dereference
   \<and> fst (parseFunc pf (NewParser (NewTokenizerString ''func f [] [] $''))) =
     Panic nil_dereference
   \<and> fst (Next (snd (Next (NewTokenizerString [CHR 0x27, CHR ''$''])))) =
     Err (TokenizerError \<lparr>LineNumber = 1, CharNumber = 3, FilePath = ''<memory>''\<rparr>
       (Some (Errorf ''Unexpected rune: 36'')))"
  by (simp add: tokenizer_eval parser_eval)

text \<open>
  Claim C6: an error of the tokenizer inside \<open>( IDENT type )\<close> makes \<open>parseArg\<close> return a
  non-nil error. When the first or the second \<open>read\<close> of \<open>parseArg\<close> fails, it returns the
  placeholder \<open>VoidArg\<close> and a nil error (the error of the last \<open>read\<close> is returned), and
  \<open>parseFunc\<close> goes on: \<open>func f [($] [] {}\<close> parses to a function with the placeholder as
  its argument.
\<close>

theorem parseArg_returns_placeholder_without_error:
  "fst (parseArg (NewParser (NewTokenizerString ''$''))) = Ok VoidArg
   \<and> fst (parseArg (NewParser (NewTokenizerString ''($''))) = Ok VoidArg
   \<and> fst (parseArg (NewParser (NewTokenizerString ''(a int $''))) =
     Err (TokenizerError \<lparr>LineNumber = 1, CharNumber = 9, FilePath = ''<memory>''\<rparr>
       (Some (Errorf ''Unexpected rune: 36'')))
   \<and> fst (parseFunc pf (NewParser (NewTokenizerString ''func f [($] [] {}''))) =
     Ok (FuncN (FuncNode ''f'' [VoidArg] [] []
       (Some \<lparr>SVal = ''func'', TkType = TT_FUNC,
          Pos = \<lparr>LineNumber = 1, CharNumber = 6, FilePath = ''<memory>''\<rparr>\<rparr>)))"
  by (simp add: tokenizer_eval parser_eval)

text \<open>
  Claim C10: \<open>parseType\<close> on \<open>{}\<close> succeeds and returns a union with no member;
  \<open>NewUnionType\<close> accepts the empty list.
\<close>

theorem parseType_empty_union:
  "fst (parseType (NewParser (NewTokenizerString ''{}''))) = Ok (UnionType [])
   \<and> NewUnionType [] = Ok (UnionType [])"
  by (simp add: tokenizer_eval parser_eval)

section \<open>Inference on expressions\<close>

lemma InferTypes_args_ok:
  "length argTypes \<le> length stack \<Longrightarrow>
   (\<And>j. i \<le> j \<Longrightarrow> j < length argTypes \<Longrightarrow>
      TypeCompatibleWith (stack ! (length stack - length argTypes + j)) (argTypes ! j) = Ok True)
   \<Longrightarrow> InferTypes_args stack argTypes tk verb i = Ok ()"
proof (induction "length argTypes - i" arbitrary: i)
  case 0
  then show ?case by (simp add: InferTypes_args.simps)
next
  case (Suc k)
  from Suc.hyps(2) have lt: "i < length argTypes" by simp
  from Suc.hyps(2) have "k = length argTypes - (i + 1)" by simp
  from Suc.hyps(1) [OF this Suc.prems(1)] Suc.prems(2)
  have "InferTypes_args stack argTypes tk verb (i + 1) = Ok ()" by simp
  with lt Suc.prems(1) Suc.prems(2) [of i] show ?case
    by (subst InferTypes_args.simps) simp
qed

lemma InferTypes_args_mismatch:
  "length argTypes \<le> length stack \<Longrightarrow> i0 \<le> i \<Longrightarrow> i < length argTypes \<Longrightarrow>
   (\<And>j. i0 \<le> j \<Longrightarrow> j < i \<Longrightarrow>
      TypeCompatibleWith (stack ! (length stack - length argTypes + j)) (argTypes ! j) = Ok True)
   \<Longrightarrow> TypeCompatibleWith (stack ! (length stack - length argTypes + i)) (argTypes ! i) = Ok False
   \<Longrightarrow> InferTypes_args stack argTypes tk verb i0 =
         Err (TypeError (argTypes ! i) (stack ! (length stack - length argTypes + i)) tk
                (''in a call to `'' @ verb @ ''`.''))"
proof (induction "i - i0" arbitrary: i0)
  case 0
  then have "i0 = i" by simp
  with 0 show ?case by (subst InferTypes_args.simps) simp
next
  case (Suc k)
  from Suc.hyps(2) have lt: "i0 < i" by simp
  from Suc.hyps(2) have "k = i - (i0 + 1)" by simp
  from Suc.hyps(1) [OF this Suc.prems(1) _ Suc.prems(3) _ Suc.prems(5)] lt Suc.prems(4)
  have "InferTypes_args stack argTypes tk verb (i0 + 1) =
         Err (TypeError (argTypes ! i) (stack ! (length stack - length argTypes + i)) tk
                (''in a call to `'' @ verb @ ''`.''))" by simp
  with lt Suc.prems(1,3) Suc.prems(4) [of i0] show ?case
    by (subst InferTypes_args.simps) simp
qed

lemma InferTypes_literals:
  "InferTypes (ExpNode (LitIntNode iv t # vs) tk) S tws =
     InferTypes (ExpNode vs tk) (S @ [PrimType ''int'']) tws"
  "InferTypes (ExpNode (LitFloatNode fv t # vs) tk) S tws =
     InferTypes (ExpNode vs tk) (S @ [PrimType ''float'']) tws"
  by (simp_all add: InferTypes_def)

lemma InferTypes_verb_not_enough:
  "Lookup tws verb = FuncT (FuncType as rs) \<Longrightarrow> length S < length as \<Longrightarrow>
     InferTypes (ExpNode (VerbNode verb t # vs) tk) S tws = Err (Errorf ''Not enough arguments.'')"
  by (simp add: InferTypes_def InferTypes_verb_def)

lemma InferTypes_verb_mismatch:
  "Lookup tws verb = FuncT (FuncType as rs) \<Longrightarrow> length as \<le> length S \<Longrightarrow> i < length as \<Longrightarrow>
   (\<forall>j<i. TypeCompatibleWith (S ! (length S - length as + j)) (as ! j) = Ok True) \<Longrightarrow>
   TypeCompatibleWith (S ! (length S - length as + i)) (as ! i) = Ok False \<Longrightarrow>
     InferTypes (ExpNode (VerbNode verb t # vs) tk) S tws =
       Err (TypeError (as ! i) (S ! (length S - length as + i)) tk
              (''in a call to `'' @ verb @ ''`.''))"
  using InferTypes_args_mismatch [of as S 0 i tk verb]
  by (simp add: InferTypes_def InferTypes_verb_def)

lemma InferTypes_verb_ok:
  "Lookup tws verb = FuncT (FuncType as rs) \<Longrightarrow> length as \<le> length S \<Longrightarrow>
   (\<forall>j<length as. TypeCompatibleWith (S ! (length S - length as + j)) (as ! j) = Ok True) \<Longrightarrow>
     InferTypes (ExpNode (VerbNode verb t # vs) tk) S tws =
       InferTypes (ExpNode vs tk) (take (length S - length as) S @ rs) tws"
  using InferTypes_args_ok [of as S 0 tk verb]
  by (simp add: InferTypes_def InferTypes_verb_def)

lemma InferTypes_source_S7: "InferTypes_source pf ''5 square.i;'' = Ok [PrimType ''int'']"
  by (simp add: tokenizer_eval parser_eval infer_eval)

lemma InferTypes_source_S8:
  "pf ''5.0'' = Some fv \<Longrightarrow> InferTypes_source pf ''5.0 square.i;'' =
     Err (TypeError (PrimType ''int'') (PrimType ''float'')
       (Some \<lparr>SVal = ''5.0'', TkType = TT_LITFLOAT,
          Pos = \<lparr>LineNumber = 1, CharNumber = 5, FilePath = ''<memory>''\<rparr>\<rparr>)
       ''in a call to `square.i`.'')"
  by (simp add: tokenizer_eval parser_eval infer_eval)

text \<open>
  Claim C4: \<open>InferTypes\<close> handles the items of an \<open>ExpNode\<close> from left to right. The first
  item decides the stack for the rest: an integer literal pushes \<open>Prim(int)\<close>, a float
  literal pushes \<open>Prim(float)\<close>; a verb that resolves to a function type of \<open>n\<close> arguments
  fails with "Not enough arguments." on a stack of fewer than \<open>n\<close> entries, fails with the
  \<open>TypeError\<close> of the first index \<open>i\<close> whose actual \<open>stack[|S|-n+i]\<close> is not compatible with
  \<open>argTypes[i]\<close> (wanted the formal, got the actual, with the token of the \<open>ExpNode\<close>), and
  otherwise pops the \<open>n\<close> entries and pushes the return types in order; with no item left
  the stack is returned. Scenarios S7 and S8: \<open>5 square.i;\<close> gives the stack \<open>[Prim(int)]\<close>,
  and \<open>5.0 square.i;\<close> the \<open>TypeError\<close> that wanted \<open>Prim(int)\<close> and got \<open>Prim(float)\<close>
  (when \<open>strconv.ParseFloat\<close> accepts \<open>5.0\<close>, as it does).
\<close>

theorem InferTypes_ExpNode_rules:
  "InferTypes (ExpNode (LitIntNode iv t # vs) tk) S tws =
     InferTypes (ExpNode vs tk) (S @ [PrimType ''int'']) tws
   \<and> InferTypes (ExpNode (LitFloatNode fv t # vs) tk) S tws =
     InferTypes (ExpNode vs tk) (S @ [PrimType ''float'']) tws
   \<and> (Lookup tws verb = FuncT (FuncType as rs) \<and> length S < length as \<longrightarrow>
       InferTypes (ExpNode (VerbNode verb t # vs) tk) S tws =
         Err (Errorf ''Not enough arguments.''))
   \<and> (Lookup tws verb = FuncT (FuncType as rs) \<and> length as \<le> length S \<and> i < length as
       \<and> (\<forall>j<i. TypeCompatibleWith (S ! (length S - length as + j)) (as ! j) = Ok True)
       \<and> TypeCompatibleWith (S ! (length S - length as + i)) (as ! i) = Ok False \<longrightarrow>
       InferTypes (ExpNode (VerbNode verb t # vs) tk) S tws =
         Err (TypeError (as ! i) (S ! (length S - length as + i)) tk
                (''in a call to `'' @ verb @ ''`.'')))
   \<and> (Lookup tws verb = FuncT (FuncType as rs) \<and> length as \<le> length S
       \<and> (\<forall>j<length as.
             TypeCompatibleWith (S ! (length S - length as + j)) (as ! j) = Ok True) \<longrightarrow>
       InferTypes (ExpNode (VerbNode verb t # vs) tk) S tws =
         InferTypes (ExpNode vs tk) (take (length S - length as) S @ rs) tws)
   \<and> InferTypes (ExpNode [] tk) S tws = Ok S
   \<and> InferTypes_source pf ''5 square.i;'' = Ok [PrimType ''int'']
   \<and> (pf ''5.0'' = Some fv \<longrightarrow>
       InferTypes_source pf ''5.0 square.i;'' =
         Err (TypeError (PrimType ''int'') (PrimType ''float'')
           (Some \<lparr>SVal = ''5.0'', TkType = TT_LITFLOAT,
              Pos = \<lparr>LineNumber = 1, CharNumber = 5, FilePath = ''<memory>''\<rparr>\<rparr>)
           ''in a call to `square.i`.''))"
proof (intro conjI impI)
  show "InferTypes (ExpNode [] tk) S tws = Ok S" by (simp add: InferTypes_def)
qed (erule conjE | rule InferTypes_literals InferTypes_verb_not_enough InferTypes_verb_mismatch
       InferTypes_verb_ok InferTypes_source_S7 InferTypes_source_S8 | assumption)+


theorem InferTypes_ExpNode_rules_witness:
  "InferTypes (ExpNode [VerbNode ''square.i'' None :: string Node] None) []
     (NewTypeWorlds [builtins]) = Err (Errorf ''Not enough arguments.'')
   \<and> InferTypes (ExpNode [VerbNode ''square.i'' None :: string Node] None) [PrimType ''float'']
       (NewTypeWorlds [builtins]) =
     Err (TypeError (PrimType ''int'') (PrimType ''float'') None ''in a call to `square.i`.'')
   \<and> InferTypes (ExpNode [VerbNode ''square.i'' None :: string Node] None)
       [PrimType ''float'', PrimType ''int''] (NewTypeWorlds [builtins]) =
     Ok [PrimType ''float'', PrimType ''int'']
   \<and> InferTypes_source (\<lambda>s. Some s) ''5.0 square.i;'' =
     Err (TypeError (PrimType ''int'') (PrimType ''float'')
       (Some \<lparr>SVal = ''5.0'', TkType = TT_LITFLOAT,
          Pos = \<lparr>LineNumber = 1, CharNumber = 5, FilePath = ''<memory>''\<rparr>\<rparr>)
       ''in a call to `square.i`.'')"
proof -
  note rules = InferTypes_ExpNode_rules [where tws = "NewTypeWorlds [builtins]"
      and verb = "''square.i''" and as = "[PrimType ''int'']" and rs = "[PrimType ''int'']"
      and i = 0 and vs = "[] :: string Node list" and tk = None and t = None
      and pf = "\<lambda>s. Some s" and fv = "''5.0''" and iv = 0]
  note evals = Lookup_def NewTypeWorlds_def builtins_def TypeEqual_def
  have a: "InferTypes (ExpNode [VerbNode ''square.i'' None :: string Node] None) []
     (NewTypeWorlds [builtins]) = Err (Errorf ''Not enough arguments.'')"
    using rules [where S = "[]"] by (auto simp: evals)
  have b: "InferTypes (ExpNode [VerbNode ''square.i'' None :: string Node] None)
       [PrimType ''float''] (NewTypeWorlds [builtins]) =
     Err (TypeError (PrimType ''int'') (PrimType ''float'') None ''in a call to `square.i`.'')"
    using rules [where S = "[PrimType ''float'']"] by (auto simp: evals)
  have c: "InferTypes (ExpNode [VerbNode ''square.i'' None :: string Node] None)
       [PrimType ''float'', PrimType ''int''] (NewTypeWorlds [builtins]) =
     Ok [PrimType ''float'', PrimType ''int'']"
    using rules [where S = "[PrimType ''float'', PrimType ''int'']"] by (auto simp: evals)
  have d: "InferTypes_source (\<lambda>s. Some s) ''5.0 square.i;'' =
     Err (TypeError (PrimType ''int'') (PrimType ''float'')
       (Some \<lparr>SVal = ''5.0'', TkType = TT_LITFLOAT,
          Pos = \<lparr>LineNumber = 1, CharNumber = 5, FilePath = ''<memory>''\<rparr>\<rparr>)
       ''in a call to `square.i`.'')"
    using rules [where S = "[]"] by auto
  from a b c d show ?thesis by (intro conjI)
qed

lemma InferTypes_exps_skip:
  "\<not> literal_or_verb v \<Longrightarrow>
     InferTypes_exps tws tk (xs @ v # ys) S = InferTypes_exps tws tk (xs @ ys) S"
proof (induction xs arbitrary: S)
  case Nil
  then show ?case by (cases v) (simp_all add: literal_or_verb_def)
next
  case (Cons x xs)
  then show ?case by (cases x) (simp_all split: result.splits)
qed

text \<open>
  Claim C9: an item of an \<open>ExpNode\<close> that is neither a literal nor a \<open>VerbNode\<close> (a
  \<open>QuotNode\<close>, for one) is skipped: inferring it alone returns the stack unchanged with no
  error, and in any expression the result is the one without the item.
\<close>

theorem InferTypes_skips_other_items:
  "\<not> literal_or_verb v \<Longrightarrow>
     InferTypes (ExpNode [v] tk) S tws = Ok S
     \<and> InferTypes (ExpNode (xs @ v # ys) tk) S tws = InferTypes (ExpNode (xs @ ys) tk) S tws"
  using InferTypes_exps_skip [of v tws tk "[]" "[]" S] InferTypes_exps_skip [of v tws tk xs ys S]
  by (simp add: InferTypes_def)

theorem InferTypes_skips_other_items_witness:
  "\<not> literal_or_verb (QuotNode ''foo'' None :: unit Node)
   \<and> InferTypes (ExpNode [QuotNode ''foo'' None :: unit Node] None) [PrimType ''int'']
       (NewTypeWorlds [builtins]) = Ok [PrimType ''int'']
   \<and> InferTypes
       (ExpNode ([LitIntNode 5 None] @ (QuotNode ''foo'' None :: unit Node)
          # [VerbNode ''square.i'' None]) None) [] (NewTypeWorlds [builtins])
     = Ok [PrimType ''int'']"
  using InferTypes_skips_other_items [of "QuotNode ''foo'' None :: unit Node" None
      "[PrimType ''int'']" "NewTypeWorlds [builtins]" "[]" "[]"]
    InferTypes_skips_other_items [of "QuotNode ''foo'' None :: unit Node" None
      "[]" "NewTypeWorlds [builtins]" "[LitIntNode 5 None]" "[VerbNode ''square.i'' None]"]
  by (simp add: literal_or_verb_def infer_eval)

text \<open>From the source text: the quoted identifier \<open>'foo\<close> leaves the stack as it is.\<close>

lemma InferTypes_source_quotation:
  "InferTypes_source pf (''5 '' @ [CHR 0x27] @ ''foo square.i;'') = Ok [PrimType ''int'']"
  by (simp add: tokenizer_eval parser_eval infer_eval)

section \<open>The checker refines its specification\<close>

lemma foldl_thread_stops:
  "foldl (\<lambda>r node. case r of Ok S \<Rightarrow> f node S | Err e \<Rightarrow> Err e | Panic m \<Rightarrow> Panic m)
     (Err e) body = Err e"
  "foldl (\<lambda>r node. case r of Ok S \<Rightarrow> f node S | Err e \<Rightarrow> Err e | Panic m \<Rightarrow> Panic m)
     (Panic m) body = Panic m"
  by (induction body) simp_all

lemma TypeCheck_body_foldl:
  "TypeCheck_body tws body S =
     foldl (\<lambda>r node. case r of Ok S \<Rightarrow> InferTypes node S tws | Err e \<Rightarrow> Err e | Panic m \<Rightarrow> Panic m)
       (Ok S) body"
proof (induction body arbitrary: S)
  case Nil
  show ?case by simp
next
  case (Cons node body)
  show ?case
    by (cases "InferTypes node S tws") (simp_all add: Cons.IH foldl_thread_stops)
qed

lemma TypeCheck_rets_find:
  assumes "length (RetTypes (Func_Type fn)) = length S"
  shows "TypeCheck_rets fn S i =
     (case find (\<lambda>i. TypeCompatibleWith (S ! i) (RetTypes (Func_Type fn) ! i) \<noteq> Ok True)
             [i..<length S] of
        None \<Rightarrow> Ok ()
      | Some i \<Rightarrow>
          (case TypeCompatibleWith (S ! i) (RetTypes (Func_Type fn) ! i) of
             Ok b \<Rightarrow>
               Err (TypeError (RetTypes (Func_Type fn) ! i) (S ! i)
                      (FuncNode_Token (Func_FuncNode fn))
                      (''(in returned values of function `'' @ Func_Name fn @ ''`)''))
           | Err e \<Rightarrow> Err e
           | Panic m \<Rightarrow> Panic m))"
proof (induction "length S - i" arbitrary: i)
  case 0
  then show ?case by (subst TypeCheck_rets.simps) simp
next
  case (Suc k)
  from Suc.hyps(2) have lt: "i < length S" by simp
  from Suc.hyps(2) have "k = length S - (i + 1)" by simp
  note IH = Suc.hyps(1) [OF this]
  from lt have upt: "[i..<length S] = i # [i + 1..<length S]" by (simp add: upt_conv_Cons)
  show ?case
  proof (cases "TypeCompatibleWith (S ! i) (RetTypes (Func_Type fn) ! i)")
    case (Ok b)
    with lt assms IH upt show ?thesis
      by (subst TypeCheck_rets.simps) (cases b; simp)
  next
    case (Err e)
    with lt assms upt show ?thesis by (subst TypeCheck_rets.simps) simp
  next
    case (Panic m)
    with lt assms upt show ?thesis by (subst TypeCheck_rets.simps) simp
  qed
qed

lemma TypeCheck_func_spec: "TypeCheck_func tws fn = check_function_spec tws fn"
proof (cases "TypeCheck_body tws (Body (Func_FuncNode fn)) []")
  case (Ok S)
  then show ?thesis
    using TypeCheck_rets_find [of fn S 0]
    by (simp add: TypeCheck_func_def check_function_spec_def thread_stack_spec_def
          returns_spec_def TypeCheck_body_foldl [symmetric])
next
  case (Err e)
  then show ?thesis
    by (simp add: TypeCheck_func_def check_function_spec_def thread_stack_spec_def
          TypeCheck_body_foldl [symmetric])
next
  case (Panic m)
  then show ?thesis
    by (simp add: TypeCheck_func_def check_function_spec_def thread_stack_spec_def
          TypeCheck_body_foldl [symmetric])
qed

lemma first_failure_spec_simps:
  "first_failure_spec [] = Ok ()"
  "first_failure_spec (r # rs) = (if r \<noteq> Ok () then r else first_failure_spec rs)"
  by (simp_all add: first_failure_spec_def)

lemma first_failure_spec_append:
  "first_failure_spec (rs @ rs') =
     (if first_failure_spec rs \<noteq> Ok () then first_failure_spec rs else first_failure_spec rs')"
  by (induction rs) (simp_all add: first_failure_spec_simps)

lemma TypeCheck_funcs_spec:
  "TypeCheck_funcs tws funcs = first_failure_spec (map (check_function_spec tws) (map snd funcs))"
proof (induction funcs)
  case Nil
  show ?case by (simp add: first_failure_spec_simps)
next
  case (Cons kf funcs)
  obtain k fn where kf: "kf = (k, fn)" by (cases kf)
  show ?case
    by (cases "check_function_spec tws fn")
      (simp_all add: kf Cons.IH first_failure_spec_simps TypeCheck_func_spec)
qed

lemma TypeCheck_modules_spec:
  "names_match modules \<Longrightarrow> TypeCheck_modules tws modules = TypeCheck_spec tws modules"
proof (induction modules)
  case Nil
  show ?case by (simp add: TypeCheck_spec_def first_failure_spec_simps)
next
  case (Cons kv modules)
  obtain k v where kv: "kv = (k, v)" by (cases kv)
  from Cons.prems kv have k: "k = Module_Name v" and rest: "names_match modules"
    by (simp_all add: names_match_def)
  from Cons.IH [OF rest]
  have IH: "TypeCheck_modules tws modules =
    first_failure_spec (map (check_function_spec tws)
      (concat (map (\<lambda>(k, v). map snd (Module_Funcs v)) modules)))"
    by (simp add: TypeCheck_spec_def)
  show ?case
    by (cases "first_failure_spec (map (check_function_spec tws) (map snd (Module_Funcs v)))")
      (simp_all add: kv k IH TypeCheck_spec_def TypeCheck_funcs_spec first_failure_spec_append)
qed

lemma TypeCheck_world_Ok:
  "names_match modules \<Longrightarrow> \<exists>w. TypeCheck_world modules tw = Ok w"
proof (induction modules arbitrary: tw)
  case Nil
  show ?case by simp
next
  case (Cons kv modules)
  obtain k v where kv: "kv = (k, v)" by (cases kv)
  with Cons show ?case by (simp add: names_match_def)
qed

text \<open>
  Claim C5: where every key of \<open>modules\<close> is the name of its module, \<open>TypeCheck\<close> builds the
  world of the qualified names and then does what the specification says: each function is
  checked from an empty stack (the declared arguments are not pushed), the stack is threaded
  through the body, a stack of the wrong length gives the arity error, the first returned
  type that is not compatible with the declared one gives the \<open>TypeError\<close> with the extra
  "(in returned values of function f)", and the first failure of any function is the result.
\<close>

theorem TypeCheck_refines_spec:
  "names_match modules \<Longrightarrow>
     \<exists>w. TypeCheck_world modules Map.empty = Ok w
        \<and> TypeCheck modules = TypeCheck_spec (NewTypeWorlds [builtins, w]) modules"
proof -
  assume nm: "names_match modules"
  from TypeCheck_world_Ok [OF nm] obtain w where w: "TypeCheck_world modules Map.empty = Ok w"
    by blast
  with TypeCheck_modules_spec [OF nm] show ?thesis by (simp add: TypeCheck_def)
qed

theorem TypeCheck_refines_spec_witness:
  "names_match
     (module_of [\<lparr>Arg_Name = ''a'', Arg_Type = PrimType ''int''\<rparr>] [PrimType ''int'']
        [ExpNode [VerbNode ''square.i'' None] None :: unit Node])
   \<and> TypeCheck
       (module_of [\<lparr>Arg_Name = ''a'', Arg_Type = PrimType ''int''\<rparr>] [PrimType ''int'']
          [ExpNode [VerbNode ''square.i'' None] None :: unit Node])
     = Err (Errorf ''Not enough arguments.'')"
  using TypeCheck_refines_spec
    [of "module_of [\<lparr>Arg_Name = ''a'', Arg_Type = PrimType ''int''\<rparr>] [PrimType ''int'']
          [ExpNode [VerbNode ''square.i'' None] None :: unit Node]"]
  by (auto simp: module_of_def names_match_def TypeCheck_spec_def first_failure_spec_def
        check_function_spec_def thread_stack_spec_def returns_spec_def mkFunc_def mkFuncType_def
        infer_eval)

text \<open>The two errors of the returned values, and a function that checks.\<close>

lemma TypeCheck_arity_error:
  "TypeCheck (module_of [] [PrimType ''int''] ([] :: unit Node list)) =
     Err (Errorf
       ''Function `f` does not return the right amount of values. Wanted 1 but got 0.'')"
  by (simp add: module_of_def check_eval infer_eval decimal.simps char_of_def bit_Suc_0_iff)

lemma TypeCheck_return_type_error:
  "TypeCheck (module_of [] [PrimType ''float''] [ExpNode [LitIntNode 5 None] None :: unit Node]) =
     Err (TypeError (PrimType ''float'') (PrimType ''int'') None
       ''(in returned values of function `f`)'')"
  by (simp add: module_of_def check_eval infer_eval)

lemma TypeCheck_accepts:
  "TypeCheck (module_of [] [PrimType ''int'']
     [ExpNode [LitIntNode 5 None, VerbNode ''square.i'' None] None :: unit Node]) = Ok ()"
  by (simp add: module_of_def check_eval infer_eval)

end
